theory Spec2Isabelle
  imports Complex_Main "HOL-Library.AList"
begin

section \<open>Values decoded from the wire\<close>

text \<open>
  Both programs exchange newline-terminated JSON texts and work on what \<^verbatim>\<open>json.loads\<close>
  returns: \<^verbatim>\<open>None\<close>, a \<^verbatim>\<open>bool\<close>, a number, a \<^verbatim>\<open>str\<close>, a \<^verbatim>\<open>list\<close> or a \<^verbatim>\<open>dict\<close>
  with string keys. A dict is an association list in insertion order. Python's \<^verbatim>\<open>int\<close>
  and \<^verbatim>\<open>float\<close> are one constructor over the reals: the relay only subtracts, takes
  absolute values and compares, and the model does these exactly (rounding of binary
  floating point, and the non-numbers \<^verbatim>\<open>NaN\<close> and \<^verbatim>\<open>Infinity\<close>, are left out).
\<close>

datatype json =
    JNull
  | JBool bool
  | JNum real
  | JStr string
  | JArr "json list"
  | JObj "(string \<times> json) list"

datatype py_error =
    AttributeError
  | KeyError
  | TypeError
  | ValueError
  | JSONDecodeError
  | TimeoutError
  | FileNotFoundError
  | ConnectionRefusedError
  | OSError

text \<open>\<^verbatim>\<open>d.get(k)\<close> on a dict: the value, or \<^verbatim>\<open>None\<close> when the key is absent.\<close>

definition dict_get :: "(string \<times> json) list \<Rightarrow> string \<Rightarrow> json" where
  "dict_get d k = (case map_of d k of None \<Rightarrow> JNull | Some v \<Rightarrow> v)"

text \<open>\<^verbatim>\<open>msg.get(k)\<close> on a decoded value: only a dict has the method.\<close>

definition msg_get :: "json \<Rightarrow> string \<Rightarrow> py_error + json" where
  "msg_get msg k = (case msg of JObj d \<Rightarrow> Inr (dict_get d k) | _ \<Rightarrow> Inl AttributeError)"

text \<open>\<^verbatim>\<open>msg[k]\<close> on a dict: the value, or \<^verbatim>\<open>KeyError\<close>.\<close>

definition msg_item :: "json \<Rightarrow> string \<Rightarrow> py_error + json" where
  "msg_item msg k =
     (case msg of
        JObj d \<Rightarrow> (case map_of d k of None \<Rightarrow> Inl KeyError | Some v \<Rightarrow> Inr v)
      | _ \<Rightarrow> Inl TypeError)"

text \<open>
  The numeric reading of a value, as Python arithmetic takes it: a \<^verbatim>\<open>bool\<close> is the
  integer 0 or 1, a number is itself, anything else is not a number.
\<close>

fun py_num :: "json \<Rightarrow> real option" where
  "py_num (JBool b) = Some (if b then 1 else 0)"
| "py_num (JNum r) = Some r"
| "py_num _ = None"

text \<open>
  Python's \<^verbatim>\<open>==\<close> on decoded values: numbers and booleans compare by numeric value,
  lists elementwise, dicts as mappings whatever the order of their keys, and values of
  different kinds are unequal.
\<close>

function (sequential) py_eq :: "json \<Rightarrow> json \<Rightarrow> bool" where
  "py_eq JNull JNull = True"
| "py_eq (JBool a) (JBool b) = (a = b)"
| "py_eq (JBool a) (JNum r) = ((if a then 1 else 0) = r)"
| "py_eq (JNum r) (JBool a) = (r = (if a then 1 else 0))"
| "py_eq (JNum r) (JNum q) = (r = q)"
| "py_eq (JStr s) (JStr t) = (s = t)"
| "py_eq (JArr xs) (JArr ys) = list_all2 py_eq xs ys"
| "py_eq (JObj a) (JObj b) =
     list_all (\<lambda>k. rel_option py_eq (map_of a k) (map_of b k)) (map fst a @ map fst b)"
| "py_eq _ _ = False"
  by pat_completeness auto
termination
proof -
  have below: "map_of a k = Some v \<Longrightarrow> size v \<le> size_list (size_prod (\<lambda>x. 0) size) a"
    for a :: "(string \<times> json) list" and k v
    by (induction a) (auto split: if_splits)
  show ?thesis
    by (relation "measure (\<lambda>(x, y). size x)")
       (auto simp: less_Suc_eq_le size_list_estimation' dest: below)
qed

section \<open>The relay: \<^verbatim>\<open>SyncServer\<close>\<close>

text \<open>
  A connection is known to the relay by its socket object alone; the model names each
  socket by a number. \<^verbatim>\<open>self.clients\<close> is a Python set: the list holds its members
  without repetition, in the order one iteration of the set visits them.
\<close>

type_synonym conn = nat

record SyncServer =
  time_tolerance :: real
  debug :: bool
  clients :: "conn list"
  current_pause :: json
  current_time :: real

text \<open>\<^verbatim>\<open>SyncServer.__init__\<close>.\<close>

definition SyncServer_init :: "real \<Rightarrow> bool \<Rightarrow> SyncServer" where
  "SyncServer_init tolerance dbg =
     \<lparr>time_tolerance = tolerance, debug = dbg, clients = [],
      current_pause = JBool False, current_time = 0\<rparr>"

text \<open>\<^verbatim>\<open>self.clients.add(conn)\<close> and \<^verbatim>\<open>self.clients.discard(conn)\<close>.\<close>

definition clients_add :: "conn \<Rightarrow> conn list \<Rightarrow> conn list" where
  "clients_add c cs = (if c \<in> set cs then cs else cs @ [c])"

definition clients_discard :: "conn \<Rightarrow> conn list \<Rightarrow> conn list" where
  "clients_discard c cs = removeAll c cs"

text \<open>
  The effects of the relay on the outside, in order: a \<^verbatim>\<open>sendall\<close> on a peer's socket
  that returned, one that raised, a line of \<^verbatim>\<open>_log\<close> (printed in debug mode only),
  an unconditional \<^verbatim>\<open>print\<close>, and \<^verbatim>\<open>conn.close()\<close>. Log texts are kept as constructors, not as
  formatted strings.
\<close>

datatype log_line =
    LogSendError conn
  | LogInvalidJSON string
  | LogUpdatePause json
  | LogUpdateTime real real
  | LogSkipDrift real

datatype print_line = PrintConnect conn | PrintDisconnect conn | PrintException py_error

datatype effect =
    Wrote conn string
  | WriteFailed conn string
  | Logged log_line
  | Printed print_line
  | Closed conn

definition debug_log :: "SyncServer \<Rightarrow> log_line \<Rightarrow> effect list" where
  "debug_log s l = (if debug s then [Logged l] else [])"

text \<open>
  \<^verbatim>\<open>broadcast_to_others\<close>. \<^verbatim>\<open>json.dumps\<close> is a parameter, and so is the set of
  peers whose \<^verbatim>\<open>sendall\<close> raises in this round. The function changes no field of
  the relay, so it returns its outputs only.
\<close>

definition newline :: string where
  "newline = [CHR 0x0A]"

definition send_one :: "(conn \<Rightarrow> bool) \<Rightarrow> SyncServer \<Rightarrow> string \<Rightarrow> conn \<Rightarrow> conn \<Rightarrow> effect list" where
  "send_one fails s raw sender_conn client =
     (if client \<noteq> sender_conn
      then (if fails client then WriteFailed client raw # debug_log s (LogSendError client)
            else [Wrote client raw])
      else [])"

definition broadcast_to_others ::
  "(json \<Rightarrow> string) \<Rightarrow> (conn \<Rightarrow> bool) \<Rightarrow> SyncServer \<Rightarrow> json \<Rightarrow> conn \<Rightarrow> effect list" where
  "broadcast_to_others dumps fails s message sender_conn =
     (let raw = dumps message @ newline
      in concat (map (send_one fails s raw sender_conn) (clients s)))"

text \<open>
  \<^verbatim>\<open>_handle_message\<close>. An exception leaves the function at once (\<open>Inl\<close>); otherwise
  the result is the relay after the call and the outputs of the call.
\<close>

definition handle_message ::
  "(json \<Rightarrow> string) \<Rightarrow> (conn \<Rightarrow> bool) \<Rightarrow> SyncServer \<Rightarrow> json \<Rightarrow> conn
     \<Rightarrow> py_error + (SyncServer \<times> effect list)" where
  "handle_message dumps fails s msg sender_conn =
     (case msg_get msg ''event'' of
        Inl e \<Rightarrow> Inl e
      | Inr event \<Rightarrow>
          if py_eq event (JStr ''pause'') then
            (case msg_get msg ''paused'' of
               Inl e \<Rightarrow> Inl e
             | Inr new_pause \<Rightarrow>
                 if \<not> py_eq new_pause (current_pause s) then
                   (let s' = s\<lparr>current_pause := new_pause\<rparr>
                    in Inr (s', debug_log s' (LogUpdatePause new_pause)
                                @ broadcast_to_others dumps fails s' msg sender_conn))
                 else Inr (s, []))
          else if py_eq event (JStr ''seek'') \<or> py_eq event (JStr ''time'') then
            (case msg_get msg ''raw_time'' of
               Inl e \<Rightarrow> Inl e
             | Inr new_time \<Rightarrow>
                 if new_time = JNull then Inr (s, [])
                 else
                   (case py_num new_time of
                      None \<Rightarrow> Inl TypeError
                    | Some v \<Rightarrow>
                        (let drift = \<bar>v - current_time s\<bar>
                         in if drift > time_tolerance s then
                              (let s' = s\<lparr>current_time := v\<rparr>
                               in Inr (s', debug_log s' (LogUpdateTime v drift)
                                           @ broadcast_to_others dumps fails s' msg sender_conn))
                            else Inr (s, debug_log s (LogSkipDrift drift)))))
          else Inr (s, []))"


text \<open>The socket writes among some outputs, in order, whether they succeeded or not.\<close>

fun writes :: "effect list \<Rightarrow> (conn \<times> string) list" where
  "writes [] = []"
| "writes (Wrote c raw # os) = (c, raw) # writes os"
| "writes (WriteFailed c raw # os) = (c, raw) # writes os"
| "writes (_ # os) = writes os"

text \<open>The writes that reached their peer.\<close>

fun delivered :: "effect list \<Rightarrow> (conn \<times> string) list" where
  "delivered [] = []"
| "delivered (Wrote c raw # os) = (c, raw) # delivered os"
| "delivered (_ # os) = delivered os"

subsection \<open>The receive loop of one connection\<close>

text \<open>
  Texts are lists of characters, a character being a code point below 256; the chunks
  are what \<^verbatim>\<open>data.decode("utf-8")\<close> returned (a chunk that does not decode is not
  modelled). \<^verbatim>\<open>line.strip()\<close> is empty exactly when every character of the line is
  white space in Python's sense.
\<close>

definition py_isspace :: "char \<Rightarrow> bool" where
  "py_isspace c = ((of_char c :: nat) \<in> {9, 10, 11, 12, 13, 28, 29, 30, 31, 32, 133, 160})"

definition blank :: "string \<Rightarrow> bool" where
  "blank line = list_all py_isspace line"

text \<open>\<^verbatim>\<open>buffer.split("\n", 1)\<close>, or \<open>None\<close> when there is no newline in the buffer.\<close>

fun split_nl :: "string \<Rightarrow> (string \<times> string) option" where
  "split_nl [] = None"
| "split_nl (c # cs) =
     (if c = CHR 0x0A then Some ([], cs)
      else (case split_nl cs of None \<Rightarrow> None | Some (l, r) \<Rightarrow> Some (c # l, r)))"

text \<open>
  The inner loop \<^verbatim>\<open>while "\n" in buffer\<close> of \<^verbatim>\<open>handle_client\<close>. \<^verbatim>\<open>json.loads\<close> is
  a parameter: \<open>None\<close> is \<^verbatim>\<open>JSONDecodeError\<close>. The loop either raises (\<open>Inl\<close>, with the
  relay and the effects up to there) or leaves the rest of the buffer (\<open>Inr\<close>).
\<close>

function drain ::
  "(string \<Rightarrow> json option) \<Rightarrow> (json \<Rightarrow> string) \<Rightarrow> (conn \<Rightarrow> bool) \<Rightarrow> SyncServer \<Rightarrow> conn \<Rightarrow> string
     \<Rightarrow> (py_error \<times> SyncServer \<times> effect list) + (SyncServer \<times> string \<times> effect list)" where
  "drain loads dumps fails s conn buffer =
     (case split_nl buffer of
        None \<Rightarrow> Inr (s, buffer, [])
      | Some (line, rest) \<Rightarrow>
          if blank line then drain loads dumps fails s conn rest
          else
            (case loads line of
               None \<Rightarrow>
                 (case drain loads dumps fails s conn rest of
                    Inl (e, s', out) \<Rightarrow> Inl (e, s', debug_log s (LogInvalidJSON line) @ out)
                  | Inr (s', b, out) \<Rightarrow> Inr (s', b, debug_log s (LogInvalidJSON line) @ out))
             | Some msg \<Rightarrow>
                 (case handle_message dumps fails s msg conn of
                    Inl e \<Rightarrow> Inl (e, s, [])
                  | Inr (s1, out1) \<Rightarrow>
                      (case drain loads dumps fails s1 conn rest of
                         Inl (e, s', out) \<Rightarrow> Inl (e, s', out1 @ out)
                       | Inr (s', b, out) \<Rightarrow> Inr (s', b, out1 @ out)))))"
  by pat_completeness auto
termination
proof -
  have shorter: "split_nl b = Some (l, r) \<Longrightarrow> length r < length b" for b l r
    by (induction b arbitrary: l) (auto split: if_splits option.splits)
  show ?thesis
    by (relation "measure (\<lambda>(loads, dumps, fails, s, conn, buffer). length buffer)")
       (auto dest: shorter)
qed

declare drain.simps [simp del]

text \<open>
  The outer loop, on the results of the successive \<^verbatim>\<open>conn.recv(4096)\<close>: a chunk of
  text, the empty chunk at end of stream, or an exception. When the results observed so
  far are used up the thread is blocked in \<^verbatim>\<open>recv\<close>: the loop has not ended.
\<close>

datatype recv = Data string | RecvRaises

datatype loop_status = Waiting string | Ended | Raised py_error

fun recv_loop ::
  "(string \<Rightarrow> json option) \<Rightarrow> (json \<Rightarrow> string) \<Rightarrow> (conn \<Rightarrow> bool) \<Rightarrow> SyncServer \<Rightarrow> conn \<Rightarrow> string
     \<Rightarrow> recv list \<Rightarrow> loop_status \<times> SyncServer \<times> effect list" where
  "recv_loop loads dumps fails s conn buffer [] = (Waiting buffer, s, [])"
| "recv_loop loads dumps fails s conn buffer (RecvRaises # later) = (Raised OSError, s, [])"
| "recv_loop loads dumps fails s conn buffer (Data data # later) =
     (if data = [] then (Ended, s, [])
      else
        (case drain loads dumps fails s conn (buffer @ data) of
           Inl (e, s', out) \<Rightarrow> (Raised e, s', out)
         | Inr (s', buffer', out) \<Rightarrow>
             (case recv_loop loads dumps fails s' conn buffer' later of
                (st, s'', out') \<Rightarrow> (st, s'', out @ out'))))"

text \<open>
  \<^verbatim>\<open>handle_client\<close>: register, run the loop, and in the \<^verbatim>\<open>finally\<close> block (reached
  when the loop ended or raised) deregister and close.
\<close>

definition handle_client ::
  "(string \<Rightarrow> json option) \<Rightarrow> (json \<Rightarrow> string) \<Rightarrow> (conn \<Rightarrow> bool) \<Rightarrow> SyncServer \<Rightarrow> conn
     \<Rightarrow> recv list \<Rightarrow> loop_status \<times> SyncServer \<times> effect list" where
  "handle_client loads dumps fails s conn chunks =
     (let s1 = s\<lparr>clients := clients_add conn (clients s)\<rparr>
      in case recv_loop loads dumps fails s1 conn [] chunks of
           (Waiting b, s2, out) \<Rightarrow> (Waiting b, s2, Printed (PrintConnect conn) # out)
         | (st, s2, out) \<Rightarrow>
             (st, s2\<lparr>clients := clients_discard conn (clients s2)\<rparr>,
              Printed (PrintConnect conn) # out @ [Printed (PrintDisconnect conn), Closed conn]))"


section \<open>The peer: \<^verbatim>\<open>SyncClient\<close>\<close>

text \<open>
  Of the fields of \<^verbatim>\<open>SyncClient\<close> the model keeps the identity, drawn once in
  \<^verbatim>\<open>__init__\<close>, and the debug flag. No function below returns a changed client: the
  identity is the same for the life of the process.
\<close>

record SyncClient =
  client_id :: string
  client_debug :: bool

datatype client_log =
    LogMpvPause json
  | LogMpvTime json
  | LogMpvNoTime
  | LogMpvSeek
  | LogApplyPause json
  | LogApplyTime json

datatype client_effect =
    ToServer string
  | ToMpv string
  | ClientLogged client_log

definition client_log :: "SyncClient \<Rightarrow> client_log \<Rightarrow> client_effect list" where
  "client_log c l = (if client_debug c then [ClientLogged l] else [])"

text \<open>\<^verbatim>\<open>_send_to_mpv\<close> and \<^verbatim>\<open>_send_to_server\<close>. The latter stores the identity under
  \<^verbatim>\<open>"source"\<close> in the event first, as a dict assignment does: in place when the key
  is there, at the end otherwise.\<close>

definition send_to_mpv :: "(json \<Rightarrow> string) \<Rightarrow> json list \<Rightarrow> client_effect" where
  "send_to_mpv dumps command = ToMpv (dumps (JObj [(''command'', JArr command)]) @ newline)"

definition stamp :: "SyncClient \<Rightarrow> (string \<times> json) list \<Rightarrow> json" where
  "stamp c event = JObj (AList.update ''source'' (JStr (client_id c)) event)"

definition send_to_server :: "(json \<Rightarrow> string) \<Rightarrow> SyncClient \<Rightarrow> (string \<times> json) list \<Rightarrow> client_effect" where
  "send_to_server dumps c event = ToServer (dumps (stamp c event) @ newline)"

text \<open>
  The format \<^verbatim>\<open>{x:.2f}\<close> of the log calls is evaluated whether or not debug is on:
  it accepts a number or a bool and raises on anything else.
\<close>

fun fmt_2f :: "json \<Rightarrow> py_error + unit" where
  "fmt_2f (JNum r) = Inr ()"
| "fmt_2f (JBool b) = Inr ()"
| "fmt_2f (JStr s) = Inl ValueError"
| "fmt_2f _ = Inl TypeError"

text \<open>The body of the inner loop of \<^verbatim>\<open>_observe_mpv\<close>, for one line.\<close>

definition observe_line ::
  "(string \<Rightarrow> json option) \<Rightarrow> (json \<Rightarrow> string) \<Rightarrow> SyncClient \<Rightarrow> string \<Rightarrow> py_error + client_effect list" where
  "observe_line loads dumps c line =
     (if blank line then Inr []
      else
        (case loads line of
           None \<Rightarrow> Inl JSONDecodeError
         | Some msg \<Rightarrow>
             (case msg_get msg ''event'' of
                Inl e \<Rightarrow> Inl e
              | Inr ev \<Rightarrow>
                  if py_eq ev (JStr ''property-change'') then
                    (case (msg_get msg ''name'', msg_get msg ''data'') of
                       (Inr name, Inr val) \<Rightarrow>
                         if py_eq name (JStr ''pause'') then
                           Inr (client_log c (LogMpvPause val)
                                @ [send_to_server dumps c
                                     [(''event'', JStr ''pause''), (''paused'', val)]])
                         else if py_eq name (JStr ''time-pos'') then
                           (if val \<noteq> JNull then
                              (case fmt_2f val of
                                 Inl e \<Rightarrow> Inl e
                               | Inr _ \<Rightarrow>
                                   Inr (client_log c (LogMpvTime val)
                                        @ [send_to_server dumps c
                                             [(''event'', JStr ''time''), (''raw_time'', val)]]))
                            else Inr (client_log c LogMpvNoTime))
                         else Inr []
                     | (Inl e, _) \<Rightarrow> Inl e
                     | (_, Inl e) \<Rightarrow> Inl e)
                  else if py_eq ev (JStr ''seek'') then Inr (client_log c LogMpvSeek)
                  else Inr [])))"

text \<open>The body of the inner loop of \<^verbatim>\<open>_listen_server\<close>, for one line.\<close>

definition listen_line ::
  "(string \<Rightarrow> json option) \<Rightarrow> (json \<Rightarrow> string) \<Rightarrow> SyncClient \<Rightarrow> string \<Rightarrow> py_error + client_effect list" where
  "listen_line loads dumps c line =
     (if blank line then Inr []
      else
        (case loads line of
           None \<Rightarrow> Inl JSONDecodeError
         | Some msg \<Rightarrow>
             (case msg_get msg ''source'' of
                Inl e \<Rightarrow> Inl e
              | Inr src \<Rightarrow>
                  if py_eq src (JStr (client_id c)) then Inr []
                  else
                    (case msg_get msg ''event'' of
                       Inl e \<Rightarrow> Inl e
                     | Inr event \<Rightarrow>
                         if py_eq event (JStr ''pause'') then
                           (case msg_item msg ''paused'' of
                              Inl e \<Rightarrow> Inl e
                            | Inr p \<Rightarrow>
                                Inr (client_log c (LogApplyPause p)
                                     @ [send_to_mpv dumps [JStr ''set_property'', JStr ''pause'', p]]))
                         else if py_eq event (JStr ''seek'') \<or> py_eq event (JStr ''time'') then
                           (case msg_item msg ''raw_time'' of
                              Inl e \<Rightarrow> Inl e
                            | Inr t \<Rightarrow>
                                (case fmt_2f t of
                                   Inl e \<Rightarrow> Inl e
                                 | Inr _ \<Rightarrow>
                                     Inr (client_log c (LogApplyTime t)
                                          @ [send_to_mpv dumps
                                               [JStr ''set_property'', JStr ''time-pos'', t]])))
                         else Inr []))))"






subsection \<open>Connecting\<close>

text \<open>
  \<^verbatim>\<open>SyncClient.connect\<close>. The world is what the calls return: each attempt of
  \<^verbatim>\<open>self.mpv_sock.connect\<close> either succeeds or raises, and comes with the value
  \<^verbatim>\<open>time.time()\<close> has when the \<^verbatim>\<open>except\<close> clause reads it (the clock is not read
  otherwise). When the attempts observed so far are used up the loop is still running.
  The result carries the argument of every \<^verbatim>\<open>time.sleep\<close> call, in order.
\<close>

datatype dial = DialOk | DialRaises py_error

datatype connect_status = Connected | Failed py_error | Retrying

definition unavailable :: "dial \<Rightarrow> bool" where
  "unavailable d = (d = DialRaises FileNotFoundError \<or> d = DialRaises ConnectionRefusedError)"

fun connect_mpv :: "real \<Rightarrow> (dial \<times> real) list \<Rightarrow> connect_status \<times> real list" where
  "connect_mpv deadline [] = (Retrying, [])"
| "connect_mpv deadline ((DialOk, now) # later) = (Connected, [])"
| "connect_mpv deadline ((DialRaises e, now) # later) =
     (if e = FileNotFoundError \<or> e = ConnectionRefusedError then
        (if now > deadline then (Failed TimeoutError, [])
         else (case connect_mpv deadline later of (st, sleeps) \<Rightarrow> (st, 0.1 # sleeps)))
      else (Failed e, []))"

text \<open>
  The whole method: \<open>t0\<close> is the clock when the deadline is computed, \<open>server\<close> the
  outcome of the single \<^verbatim>\<open>self.server_sock.connect\<close>, which nothing catches.
\<close>

definition connect :: "real \<Rightarrow> (dial \<times> real) list \<Rightarrow> dial \<Rightarrow> connect_status \<times> real list" where
  "connect t0 attempts server =
     (let deadline = t0 + 5
      in case connect_mpv deadline attempts of
           (Connected, sleeps) \<Rightarrow>
             (case server of DialOk \<Rightarrow> (Connected, sleeps) | DialRaises e \<Rightarrow> (Failed e, sleeps))
         | r \<Rightarrow> r)"

text \<open>
  A clock that runs: every reading is at least the reading before it plus the sleep in
  between, the first one at least \<open>t\<close>.
\<close>

fun paced :: "real \<Rightarrow> (dial \<times> real) list \<Rightarrow> bool" where
  "paced t [] = True"
| "paced t ((d, now) # later) = (t \<le> now \<and> paced (now + 0.1) later)"

section \<open>The relay with several handler threads\<close>

text \<open>
  \<^verbatim>\<open>start\<close> runs \<^verbatim>\<open>handle_client\<close> in one thread per connection, and the threads
  share the relay object and its lock. The model follows one handler per thread through
  the statements of \<^verbatim>\<open>handle_client\<close>, \<^verbatim>\<open>_handle_message\<close> and
  \<^verbatim>\<open>broadcast_to_others\<close> for a connection on which one decoded message arrives before
  the stream ends. A label says where the thread is; a step runs the statement at the
  label, and a thread can be switched between any two steps:
  \<^item> \<open>AtRegister\<close>: \<^verbatim>\<open>with self.lock: self.clients.add(conn)\<close>;
  \<^item> \<open>AtCompare\<close>: the reads and tests of \<^verbatim>\<open>_handle_message\<close> up to the accepting
    \<^verbatim>\<open>if\<close>, which take no lock;
  \<^item> \<open>AtSetPause\<close>, \<open>AtSetTime\<close>: the assignment to \<^verbatim>\<open>self.current_pause\<close> or
    \<^verbatim>\<open>self.current_time\<close> and the log call, which take no lock;
  \<^item> \<open>AtLock\<close>: entering \<^verbatim>\<open>with self.lock\<close> in \<^verbatim>\<open>broadcast_to_others\<close>, which waits
    while another thread holds the lock, and copying the peer set;
  \<^item> \<open>AtSend\<close>: one turn of the loop over the copy, the lock held; with the copy used up,
    leaving the \<^verbatim>\<open>with\<close> block;
  \<^item> \<open>AtDeregister\<close>: the \<^verbatim>\<open>finally\<close> block, \<^verbatim>\<open>with self.lock: self.clients.discard(conn)\<close>
    and \<^verbatim>\<open>conn.close()\<close>, reached at end of stream or with the exception that ended
    the loop.
  The \<^verbatim>\<open>print\<close> calls are left out.
\<close>

datatype pc =
    AtRegister
  | AtCompare
  | AtSetPause json
  | AtSetTime real real
  | AtLock
  | AtSend "conn list"
  | AtDeregister "py_error option"
  | AtEnd

record handler =
  h_conn :: conn
  h_msg :: json
  h_pc :: pc

record hub =
  relay :: SyncServer
  lock :: "nat option"
  handlers :: "handler list"
  trace :: "(nat \<times> effect) list"

definition goto :: "nat \<Rightarrow> pc \<Rightarrow> hub \<Rightarrow> hub" where
  "goto i p g = g\<lparr>handlers := (handlers g)[i := (handlers g ! i)\<lparr>h_pc := p\<rparr>]\<rparr>"

definition emit :: "nat \<Rightarrow> effect list \<Rightarrow> hub \<Rightarrow> hub" where
  "emit i es g = g\<lparr>trace := trace g @ map (Pair i) es\<rparr>"

text \<open>The tests of \<^verbatim>\<open>_handle_message\<close>: the label they lead to, and what they log.\<close>

definition compare :: "SyncServer \<Rightarrow> json \<Rightarrow> pc \<times> effect list" where
  "compare s msg =
     (case msg_get msg ''event'' of
        Inl e \<Rightarrow> (AtDeregister (Some e), [])
      | Inr event \<Rightarrow>
          if py_eq event (JStr ''pause'') then
            (case msg_get msg ''paused'' of
               Inl e \<Rightarrow> (AtDeregister (Some e), [])
             | Inr new_pause \<Rightarrow>
                 if \<not> py_eq new_pause (current_pause s) then (AtSetPause new_pause, [])
                 else (AtDeregister None, []))
          else if py_eq event (JStr ''seek'') \<or> py_eq event (JStr ''time'') then
            (case msg_get msg ''raw_time'' of
               Inl e \<Rightarrow> (AtDeregister (Some e), [])
             | Inr new_time \<Rightarrow>
                 if new_time = JNull then (AtDeregister None, [])
                 else
                   (case py_num new_time of
                      None \<Rightarrow> (AtDeregister (Some TypeError), [])
                    | Some v \<Rightarrow>
                        (let drift = \<bar>v - current_time s\<bar>
                         in if drift > time_tolerance s then (AtSetTime v drift, [])
                            else (AtDeregister None, debug_log s (LogSkipDrift drift)))))
          else (AtDeregister None, []))"

text \<open>One step of thread \<open>i\<close>, or \<open>None\<close> when it cannot move: it waits for the lock, it
  has ended, or there is no such thread.\<close>

definition step :: "(json \<Rightarrow> string) \<Rightarrow> (conn \<Rightarrow> bool) \<Rightarrow> hub \<Rightarrow> nat \<Rightarrow> hub option" where
  "step dumps fails g i =
     (if length (handlers g) \<le> i then None
      else
        (let h = handlers g ! i; s = relay g
         in case h_pc h of
              AtRegister \<Rightarrow>
                if lock g = None
                then Some (goto i AtCompare
                             (g\<lparr>relay := s\<lparr>clients := clients_add (h_conn h) (clients s)\<rparr>\<rparr>))
                else None
            | AtCompare \<Rightarrow>
                (case compare s (h_msg h) of (p, es) \<Rightarrow> Some (emit i es (goto i p g)))
            | AtSetPause v \<Rightarrow>
                (let s' = s\<lparr>current_pause := v\<rparr>
                 in Some (emit i (debug_log s' (LogUpdatePause v))
                            (goto i AtLock (g\<lparr>relay := s'\<rparr>))))
            | AtSetTime v drift \<Rightarrow>
                (let s' = s\<lparr>current_time := v\<rparr>
                 in Some (emit i (debug_log s' (LogUpdateTime v drift))
                            (goto i AtLock (g\<lparr>relay := s'\<rparr>))))
            | AtLock \<Rightarrow>
                if lock g = None
                then Some (goto i (AtSend (clients s)) (g\<lparr>lock := Some i\<rparr>))
                else None
            | AtSend [] \<Rightarrow> Some (goto i (AtDeregister None) (g\<lparr>lock := None\<rparr>))
            | AtSend (client # rest) \<Rightarrow>
                Some (emit i (send_one fails s (dumps (h_msg h) @ newline) (h_conn h) client)
                        (goto i (AtSend rest) g))
            | AtDeregister err \<Rightarrow>
                if lock g = None
                then Some (emit i [Closed (h_conn h)]
                             (goto i AtEnd
                                (g\<lparr>relay := s\<lparr>clients := clients_discard (h_conn h) (clients s)\<rparr>\<rparr>)))
                else None
            | AtEnd \<Rightarrow> None))"

text \<open>A schedule names the thread that takes each step.\<close>

fun run :: "(json \<Rightarrow> string) \<Rightarrow> (conn \<Rightarrow> bool) \<Rightarrow> hub \<Rightarrow> nat list \<Rightarrow> hub option" where
  "run dumps fails g [] = Some g"
| "run dumps fails g (i # sched) =
     (case step dumps fails g i of None \<Rightarrow> None | Some g' \<Rightarrow> run dumps fails g' sched)"

text \<open>The lock is held by thread \<open>i\<close> exactly when thread \<open>i\<close> is in the sending loop.\<close>

fun sending :: "pc \<Rightarrow> bool" where
  "sending (AtSend cs) = True"
| "sending _ = False"

definition lock_inv :: "hub \<Rightarrow> bool" where
  "lock_inv g =
     list_all (\<lambda>i. sending (h_pc (handlers g ! i)) = (lock g = Some i)) [0..<length (handlers g)]"

text \<open>The labels of the compare-and-update part of \<^verbatim>\<open>_handle_message\<close>.\<close>

fun deciding :: "pc \<Rightarrow> bool" where
  "deciding AtCompare = True"
| "deciding (AtSetPause v) = True"
| "deciding (AtSetTime v d) = True"
| "deciding _ = False"

section \<open>Sample data\<close>

text \<open>
  The scenario of the specification: tolerance 2.5 s, canonical position 100.0, three
  registered peers. \<^verbatim>\<open>ex_dumps\<close> stands in for \<^verbatim>\<open>json.dumps\<close> where a concrete
  encoder is needed.
\<close>

definition ex_relay :: SyncServer where
  "ex_relay = \<lparr>time_tolerance = 2.5, debug = True, clients = [1, 2, 3],
      current_pause = JBool False, current_time = 100\<rparr>"

definition ex_time :: "real \<Rightarrow> json" where
  "ex_time v = JObj [(''event'', JStr ''time''), (''raw_time'', JNum v), (''source'', JStr ''A'')]"

text \<open>A stand-in encoder: the event kind of a message.\<close>

definition ex_dumps :: "json \<Rightarrow> string" where
  "ex_dumps m = (case m of JObj d \<Rightarrow> (case dict_get d ''event'' of JStr e \<Rightarrow> e | _ \<Rightarrow> ''?'') | _ \<Rightarrow> ''?'')"

definition ex_pause :: "bool \<Rightarrow> string \<Rightarrow> json" where
  "ex_pause b src = JObj [(''event'', JStr ''pause''), (''paused'', JBool b), (''source'', JStr src)]"

text \<open>
  A stand-in for \<^verbatim>\<open>json.loads\<close> where a concrete decoder is needed: its values on the
  sample lines, and \<^verbatim>\<open>JSONDecodeError\<close> on every other line, among them \<^verbatim>\<open>{not json\<close>.
\<close>

definition ex_line_pause :: string where
  \<open>ex_line_pause = ''{"event": "pause", "paused": true, "source": "A"}''\<close>

definition ex_line_seek :: string where
  \<open>ex_line_seek = ''{"event": "seek", "raw_time": 103.5, "source": "A"}''\<close>

definition ex_line_mpv_pause :: string where
  \<open>ex_line_mpv_pause = ''{"event": "property-change", "id": 1, "name": "pause", "data": true}''\<close>

definition ex_seek :: "real \<Rightarrow> json" where
  "ex_seek v = JObj [(''event'', JStr ''seek''), (''raw_time'', JNum v), (''source'', JStr ''A'')]"

definition ex_mpv_pause :: json where
  "ex_mpv_pause = JObj [(''event'', JStr ''property-change''), (''id'', JNum 1),
                        (''name'', JStr ''pause''), (''data'', JBool True)]"

definition ex_line_bare :: string where
  \<open>ex_line_bare = ''{"event": "pause", "source": "A"}''\<close>

definition ex_bare :: json where
  "ex_bare = JObj [(''event'', JStr ''pause''), (''source'', JStr ''A'')]"

definition ex_loads :: "string \<Rightarrow> json option" where
  "ex_loads line =
     (if line = ex_line_pause then Some (ex_pause True ''A'')
      else if line = ex_line_seek then Some (ex_seek 103.5)
      else if line = ex_line_mpv_pause then Some ex_mpv_pause
      else if line = ''[]'' then Some (JArr [])
      else if line = ex_line_bare then Some ex_bare
      else None)"

definition ex_client :: "string \<Rightarrow> SyncClient" where
  "ex_client i = \<lparr>client_id = i, client_debug = False\<rparr>"

definition ex_peers :: "(conn \<times> SyncClient) list" where
  "ex_peers = [(1, ex_client ''A''), (2, ex_client ''B''), (3, ex_client ''C'')]"

text \<open>A round in which no socket write fails.\<close>

definition ex_no_failure :: "conn \<Rightarrow> bool" where
  "ex_no_failure c = False"

text \<open>
  A control channel that stays unavailable: 52 refused attempts, the clock read at
  0.0, 0.1, ... 5.1 seconds after the start.
\<close>

definition ex_attempts :: "(dial \<times> real) list" where
  "ex_attempts = map (\<lambda>i. (DialRaises ConnectionRefusedError, real i / 10)) [0..<52]"

text \<open>
  Two handler threads, registered, each with one pause event to handle; an encoder that
  tells the two events apart; a schedule, and the hub after its first four and five steps.
\<close>

definition ex_encode :: "json \<Rightarrow> string" where
  "ex_encode m =
     (case m of
        JObj d \<Rightarrow>
          (case (dict_get d ''source'', dict_get d ''paused'') of
             (JStr src, JBool b) \<Rightarrow> src @ (if b then '':pause'' else '':resume'')
           | _ \<Rightarrow> ''?'')
      | _ \<Rightarrow> ''?'')"

definition ex_hub :: "json \<Rightarrow> json \<Rightarrow> hub" where
  "ex_hub m0 m1 =
     \<lparr>relay = ex_relay, lock = None,
      handlers = [\<lparr>h_conn = 1, h_msg = m0, h_pc = AtCompare\<rparr>,
                  \<lparr>h_conn = 2, h_msg = m1, h_pc = AtCompare\<rparr>],
      trace = []\<rparr>"

definition ex_sched :: "nat list" where
  "ex_sched = [0, 1, 0, 0, 1, 0, 0, 0, 0, 1, 1, 1, 1, 1]"

definition ex_mid :: hub where
  "ex_mid =
     \<lparr>relay = ex_relay\<lparr>current_pause := JBool True\<rparr>, lock = Some 0,
      handlers = [\<lparr>h_conn = 1, h_msg = ex_pause True ''A'', h_pc = AtSend [1, 2, 3]\<rparr>,
                  \<lparr>h_conn = 2, h_msg = ex_pause True ''B'', h_pc = AtSetPause (JBool True)\<rparr>],
      trace = [(0, Logged (LogUpdatePause (JBool True)))]\<rparr>"

definition ex_mid_next :: hub where
  "ex_mid_next =
     \<lparr>relay = ex_relay\<lparr>current_pause := JBool True\<rparr>, lock = Some 0,
      handlers = [\<lparr>h_conn = 1, h_msg = ex_pause True ''A'', h_pc = AtSend [1, 2, 3]\<rparr>,
                  \<lparr>h_conn = 2, h_msg = ex_pause True ''B'', h_pc = AtLock\<rparr>],
      trace = [(0, Logged (LogUpdatePause (JBool True))),
               (1, Logged (LogUpdatePause (JBool True)))]\<rparr>"

section \<open>Properties of the relay\<close>

subsection \<open>Socket writes of one broadcast round\<close>

lemma writes_append: "writes (xs @ ys) = writes xs @ writes ys"
  by (induction xs rule: writes.induct) auto

lemma writes_debug_log: "writes (debug_log s l) = []"
  by (simp add: debug_log_def)

lemma writes_send_one:
  "writes (send_one fails s raw sender c) = (if c \<noteq> sender then [(c, raw)] else [])"
  by (simp add: send_one_def writes_debug_log)

lemma writes_concat_send:
  "writes (concat (map (send_one fails s raw sender) cs)) =
     map (\<lambda>c. (c, raw)) (filter (\<lambda>c. c \<noteq> sender) cs)"
  by (induction cs) (simp_all add: writes_append writes_send_one)

lemma writes_broadcast:
  "writes (broadcast_to_others dumps fails s m sender) =
     map (\<lambda>c. (c, dumps m @ newline)) (filter (\<lambda>c. c \<noteq> sender) (clients s))"
  by (simp add: broadcast_to_others_def writes_concat_send)



subsection \<open>Time events\<close>



subsection \<open>Python equality\<close>


subsection \<open>Pause events\<close>



subsection \<open>The relay at start\<close>



subsection \<open>The receive loop: unfolding and the peer set\<close>

lemma drain_no_newline:
  "split_nl buffer = None \<Longrightarrow> drain loads dumps fails s conn buffer = Inr (s, buffer, [])"
  by (subst drain.simps) simp

lemma drain_blank:
  "split_nl buffer = Some (line, rest) \<Longrightarrow> blank line \<Longrightarrow>
     drain loads dumps fails s conn buffer = drain loads dumps fails s conn rest"
  by (subst drain.simps) simp

lemma drain_invalid:
  "split_nl buffer = Some (line, rest) \<Longrightarrow> \<not> blank line \<Longrightarrow> loads line = None \<Longrightarrow>
     drain loads dumps fails s conn buffer =
       (case drain loads dumps fails s conn rest of
          Inl (e, s', out) \<Rightarrow> Inl (e, s', debug_log s (LogInvalidJSON line) @ out)
        | Inr (s', b, out) \<Rightarrow> Inr (s', b, debug_log s (LogInvalidJSON line) @ out))"
  by (subst drain.simps) simp

lemma drain_raises:
  "split_nl buffer = Some (line, rest) \<Longrightarrow> \<not> blank line \<Longrightarrow> loads line = Some msg \<Longrightarrow>
   handle_message dumps fails s msg conn = Inl e \<Longrightarrow>
     drain loads dumps fails s conn buffer = Inl (e, s, [])"
  by (subst drain.simps) simp

lemma drain_handled:
  "split_nl buffer = Some (line, rest) \<Longrightarrow> \<not> blank line \<Longrightarrow> loads line = Some msg \<Longrightarrow>
   handle_message dumps fails s msg conn = Inr (s1, out1) \<Longrightarrow>
     drain loads dumps fails s conn buffer =
       (case drain loads dumps fails s1 conn rest of
          Inl (e, s', out) \<Rightarrow> Inl (e, s', out1 @ out)
        | Inr (s', b, out) \<Rightarrow> Inr (s', b, out1 @ out))"
  by (subst drain.simps) simp


lemma delivered_append: "delivered (xs @ ys) = delivered xs @ delivered ys"
  by (induction xs rule: delivered.induct) auto

lemma delivered_debug_log: "delivered (debug_log s l) = []"
  by (simp add: debug_log_def)

lemma delivered_send_one:
  "delivered (send_one fails s raw sender c) = (if c \<noteq> sender \<and> \<not> fails c then [(c, raw)] else [])"
  by (simp add: send_one_def delivered_debug_log)

lemma delivered_concat_send:
  "delivered (concat (map (send_one fails s raw sender) cs)) =
     map (\<lambda>c. (c, raw)) (filter (\<lambda>c. c \<noteq> sender \<and> \<not> fails c) cs)"
  by (induction cs) (simp_all add: delivered_append delivered_send_one)

lemma delivered_broadcast:
  "delivered (broadcast_to_others dumps fails s m sender) =
     map (\<lambda>c. (c, dumps m @ newline)) (filter (\<lambda>c. c \<noteq> sender \<and> \<not> fails c) (clients s))"
  by (simp add: broadcast_to_others_def delivered_concat_send)

lemma handle_message_clients:
  "handle_message dumps fails s msg sender = Inr (s', out) \<Longrightarrow> clients s' = clients s"
  by (auto simp: handle_message_def Let_def split: sum.splits if_splits option.splits)

lemma handle_message_writes:
  "handle_message dumps fails s msg sender = Inr (s', out) \<Longrightarrow>
     writes out = [] \<or>
     writes out = map (\<lambda>c. (c, dumps msg @ newline)) (filter (\<lambda>c. c \<noteq> sender) (clients s))"
  by (auto simp: handle_message_def Let_def writes_append writes_debug_log writes_broadcast
           split: sum.splits if_splits option.splits)

lemma drain_clients:
  "(case drain loads dumps fails s conn buffer of
      Inl (e, s', out) \<Rightarrow> clients s' = clients s
    | Inr (s', b, out) \<Rightarrow> clients s' = clients s)"
proof (induction loads dumps fails s conn buffer rule: drain.induct)
  case (1 loads dumps fails s conn buffer)
  show ?case
  proof (cases "split_nl buffer")
    case None
    then show ?thesis by (simp add: drain_no_newline)
  next
    case (Some lr)
    obtain line rest where lr: "lr = (line, rest)" by (cases lr)
    have sp: "split_nl buffer = Some (line, rest)" using Some lr by simp
    show ?thesis
    proof (cases "blank line")
      case True
      have "case drain loads dumps fails s conn rest of
              Inl (e, s', out) \<Rightarrow> clients s' = clients s
            | Inr (s', b, out) \<Rightarrow> clients s' = clients s"
        using "1.IH"(1) [OF Some lr [symmetric] True] .
      then show ?thesis by (simp add: drain_blank [OF sp True])
    next
      case nb: False
      show ?thesis
      proof (cases "loads line")
        case None
        have "case drain loads dumps fails s conn rest of
                Inl (e, s', out) \<Rightarrow> clients s' = clients s
              | Inr (s', b, out) \<Rightarrow> clients s' = clients s"
          using "1.IH"(2) [OF Some lr [symmetric] nb None] .
        then show ?thesis
          by (simp add: drain_invalid [where loads = loads, OF sp nb None] split: sum.splits prod.splits)
      next
        case sm: (Some msg)
        show ?thesis
        proof (cases "handle_message dumps fails s msg conn")
          case (Inl e)
          then show ?thesis by (simp add: drain_raises [where loads = loads, OF sp nb sm Inl])
        next
          case (Inr so)
          obtain s1 out1 where so: "so = (s1, out1)" by (cases so)
          have hm: "handle_message dumps fails s msg conn = Inr (s1, out1)"
            using Inr so by simp
          have c1: "clients s1 = clients s"
            using hm by (rule handle_message_clients)
          have "case drain loads dumps fails s1 conn rest of
                  Inl (e, s', out) \<Rightarrow> clients s' = clients s1
                | Inr (s', b, out) \<Rightarrow> clients s' = clients s1"
            using "1.IH"(3) [OF Some lr [symmetric] nb sm Inr so [symmetric]] .
          then show ?thesis
            by (simp add: drain_handled [where loads = loads, OF sp nb sm hm] c1 split: sum.splits prod.splits)
        qed
      qed
    qed
  qed
qed

lemma recv_loop_clients:
  "recv_loop loads dumps fails s conn buffer chunks = (st, s', out) \<Longrightarrow> clients s' = clients s"
proof (induction chunks arbitrary: s buffer st s' out)
  case Nil
  then show ?case by simp
next
  case (Cons ch chunks)
  show ?case
  proof (cases ch)
    case RecvRaises
    with Cons.prems show ?thesis by simp
  next
    case (Data data)
    show ?thesis
    proof (cases "data = []")
      case True
      with Cons.prems Data show ?thesis by simp
    next
      case False
      show ?thesis
      proof (cases "drain loads dumps fails s conn (buffer @ data)")
        case (Inl x)
        obtain e s1 o1 where x: "x = (e, s1, o1)" by (cases x)
        have "clients s1 = clients s"
          using drain_clients [where loads = loads and dumps = dumps and fails = fails and s = s and conn = conn
              and buffer = "buffer @ data"] Inl x by simp
        with Cons.prems Data False Inl x show ?thesis by simp
      next
        case (Inr y)
        obtain s1 b1 o1 where y: "y = (s1, b1, o1)" by (cases y)
        have c1: "clients s1 = clients s"
          using drain_clients [where loads = loads and dumps = dumps and fails = fails and s = s and conn = conn
              and buffer = "buffer @ data"] Inr y by simp
        obtain st2 s2 o2 where r2: "recv_loop loads dumps fails s1 conn b1 chunks = (st2, s2, o2)"
          by (cases "recv_loop loads dumps fails s1 conn b1 chunks")
        from Cons.IH [OF r2] have "clients s2 = clients s1" .
        with Cons.prems Data False Inr y r2 c1 show ?thesis by simp
      qed
    qed
  qed
qed

lemma handle_client_registration:
  assumes "handle_client loads dumps fails s conn chunks = (st, s', out)"
  shows "(case st of
            Waiting b \<Rightarrow> conn \<in> set (clients s')
          | _ \<Rightarrow> conn \<notin> set (clients s'))"
proof -
  let ?s1 = "s\<lparr>clients := clients_add conn (clients s)\<rparr>"
  obtain st2 s2 o2 where r: "recv_loop loads dumps fails ?s1 conn [] chunks = (st2, s2, o2)"
    by (cases "recv_loop loads dumps fails ?s1 conn [] chunks")
  have c: "clients s2 = clients_add conn (clients s)"
    using recv_loop_clients [OF r] by simp
  have "conn \<in> set (clients_add conn (clients s))"
    by (simp add: clients_add_def)
  with assms r c show ?thesis
    by (cases st2) (auto simp: handle_client_def Let_def clients_discard_def)
qed

text \<open>
  The list of peers has no repetition in a fresh relay, and no handler introduces one:
  the hypothesis of the statements about \<^verbatim>\<open>_handle_message\<close> holds in every relay
  that the handlers can reach.
\<close>

lemma init_distinct: "distinct (clients (SyncServer_init T dbg))"
  by (simp add: SyncServer_init_def)

lemma clients_add_distinct: "distinct cs \<Longrightarrow> distinct (clients_add c cs)"
  by (simp add: clients_add_def)

lemma clients_discard_distinct: "distinct cs \<Longrightarrow> distinct (clients_discard c cs)"
  by (simp add: clients_discard_def distinct_removeAll)

lemma handle_client_distinct:
  assumes "distinct (clients s)"
      and "handle_client loads dumps fails s conn chunks = (st, s', out)"
  shows "distinct (clients s')"
proof -
  let ?s1 = "s\<lparr>clients := clients_add conn (clients s)\<rparr>"
  obtain st2 s2 o2 where r: "recv_loop loads dumps fails ?s1 conn [] chunks = (st2, s2, o2)"
    by (cases "recv_loop loads dumps fails ?s1 conn [] chunks")
  have c: "clients s2 = clients_add conn (clients s)"
    using recv_loop_clients [OF r] by simp
  have d: "distinct (clients s2)"
    unfolding c using assms(1) by (rule clients_add_distinct)
  from assms(2) r d show ?thesis
    by (cases st2) (auto simp: handle_client_def Let_def clients_discard_distinct)
qed

subsection \<open>A peer whose socket fails\<close>

text \<open>
  Claim C6. In one broadcast round, whichever peers' \<^verbatim>\<open>sendall\<close> raises, a write is
  attempted on the socket of every registered peer other than the sender, and it reaches
  every such peer whose socket does not fail. The round leaves the peer set as it was: a
  failing peer stays registered. It leaves the set when its own \<^verbatim>\<open>handle_client\<close>
  loop ends or raises; while that loop is still waiting in \<^verbatim>\<open>recv\<close> it is registered.
\<close>

theorem broadcast_failure_isolated:
  "writes (broadcast_to_others dumps fails s m sender_conn)
      = map (\<lambda>c. (c, dumps m @ newline)) (filter (\<lambda>c. c \<noteq> sender_conn) (clients s))
   \<and> delivered (broadcast_to_others dumps fails s m sender_conn)
      = map (\<lambda>c. (c, dumps m @ newline))
            (filter (\<lambda>c. c \<noteq> sender_conn \<and> \<not> fails c) (clients s))
   \<and> (\<forall>s' out. handle_message dumps fails s m sender_conn = Inr (s', out) \<longrightarrow>
          clients s' = clients s)
   \<and> (\<forall>loads chunks st s' out.
          handle_client loads dumps fails s failing chunks = (st, s', out) \<longrightarrow>
          (case st of Waiting b \<Rightarrow> failing \<in> set (clients s')
                    | _ \<Rightarrow> failing \<notin> set (clients s')))"
  using handle_message_clients handle_client_registration
  by (simp add: writes_broadcast delivered_broadcast)

theorem broadcast_failure_isolated_witness:
  "writes (broadcast_to_others ex_dumps (\<lambda>c. c = 2) ex_relay (ex_time 103.5) 1)
      = [(2, ''time'' @ newline), (3, ''time'' @ newline)]
   \<and> delivered (broadcast_to_others ex_dumps (\<lambda>c. c = 2) ex_relay (ex_time 103.5) 1)
      = [(3, ''time'' @ newline)]
   \<and> handle_message ex_dumps (\<lambda>c. c = 2) ex_relay (ex_time 103.5) 1
      = Inr (ex_relay\<lparr>current_time := 103.5\<rparr>,
             [Logged (LogUpdateTime 103.5 3.5), WriteFailed 2 (''time'' @ newline),
              Logged (LogSendError 2), Wrote 3 (''time'' @ newline)])
   \<and> clients (ex_relay\<lparr>current_time := 103.5\<rparr>) = clients ex_relay
   \<and> handle_client ex_loads ex_dumps (\<lambda>c. c = 2) ex_relay 2 [RecvRaises]
      = (Raised OSError, ex_relay\<lparr>clients := [1, 3]\<rparr>,
         [Printed (PrintConnect 2), Printed (PrintDisconnect 2), Closed 2])
   \<and> 2 \<notin> set (clients (ex_relay\<lparr>clients := [1, 3]\<rparr>))"
proof -
  note t = broadcast_failure_isolated [of ex_dumps "\<lambda>c. c = 2" ex_relay "ex_time 103.5" 1 2]
  have d: "ex_dumps (ex_time v) = ''time''" for v
    by (simp add: ex_dumps_def ex_time_def dict_get_def)
  have w: "writes (broadcast_to_others ex_dumps (\<lambda>c. c = 2) ex_relay (ex_time 103.5) 1)
      = [(2, ''time'' @ newline), (3, ''time'' @ newline)]"
    using t by (simp add: d ex_relay_def)
  have dl: "delivered (broadcast_to_others ex_dumps (\<lambda>c. c = 2) ex_relay (ex_time 103.5) 1)
      = [(3, ''time'' @ newline)]"
    using t by (simp add: d ex_relay_def)
  have h: "handle_message ex_dumps (\<lambda>c. c = 2) ex_relay (ex_time 103.5) 1
      = Inr (ex_relay\<lparr>current_time := 103.5\<rparr>,
             [Logged (LogUpdateTime 103.5 3.5), WriteFailed 2 (''time'' @ newline),
              Logged (LogSendError 2), Wrote 3 (''time'' @ newline)])"
    by (simp add: handle_message_def msg_get_def dict_get_def ex_time_def ex_relay_def
          debug_log_def broadcast_to_others_def send_one_def ex_dumps_def Let_def)
  have c: "clients (ex_relay\<lparr>current_time := 103.5\<rparr>) = clients ex_relay"
    using t h by blast
  have hc: "handle_client ex_loads ex_dumps (\<lambda>c. c = 2) ex_relay 2 [RecvRaises]
      = (Raised OSError, ex_relay\<lparr>clients := [1, 3]\<rparr>,
         [Printed (PrintConnect 2), Printed (PrintDisconnect 2), Closed 2])"
    by (simp add: handle_client_def ex_relay_def clients_add_def clients_discard_def)
  have "2 \<notin> set (clients (ex_relay\<lparr>clients := [1, 3]\<rparr>))"
    using t hc by fastforce
  with w dl h c hc show ?thesis by blast
qed

section \<open>Properties of the peer and of peer and relay together\<close>

subsection \<open>The source identity\<close>

lemma msg_get_update_same: "msg_get (JObj (AList.update k v d)) k = Inr v"
  by (simp add: msg_get_def dict_get_def update_conv')

lemma msg_get_update_other:
  "k' \<noteq> k \<Longrightarrow> msg_get (JObj (AList.update k v d)) k' = msg_get (JObj d) k'"
  by (simp add: msg_get_def dict_get_def update_conv')


lemma observe_line_sends_stamped:
  assumes "observe_line loads dumps c line = Inr out" and "ToServer raw \<in> set out"
  shows "\<exists>event. raw = dumps (stamp c event) @ newline"
  using assms
  by (auto simp: observe_line_def client_log_def send_to_server_def
           split: if_splits option.splits sum.splits prod.splits)

lemma handle_message_payload:
  assumes "handle_message dumps fails s msg sender_conn = Inr (s', out)"
      and "w \<in> set (writes out)"
  shows "snd w = dumps msg @ newline \<and> fst w \<noteq> sender_conn \<and> fst w \<in> set (clients s)"
  using handle_message_writes [OF assms(1)] assms(2) by auto

text \<open>
  Claim C5. \<^verbatim>\<open>_send_to_server\<close> stores the client's identity under \<^verbatim>\<open>"source"\<close>
  before it serialises the event, and touches no other key; every line the observing
  loop sends to the relay is the serialisation of an event stamped so. The relay writes
  to each recipient the serialisation of the very message it received: it does not
  rewrite or remove any field, \<^verbatim>\<open>"source"\<close> included.
\<close>

theorem source_identity_stamped_and_relayed:
  "msg_get (stamp c event) ''source'' = Inr (JStr (client_id c))
   \<and> (\<forall>k. k \<noteq> ''source'' \<longrightarrow> msg_get (stamp c event) k = msg_get (JObj event) k)
   \<and> send_to_server dumps c event = ToServer (dumps (stamp c event) @ newline)
   \<and> (\<forall>loads line out raw.
         observe_line loads dumps c line = Inr out \<and> ToServer raw \<in> set out \<longrightarrow>
         (\<exists>ev. raw = dumps (stamp c ev) @ newline))
   \<and> (\<forall>s' out. handle_message dumps fails s msg sender_conn = Inr (s', out) \<longrightarrow>
         (\<forall>w \<in> set (writes out). snd w = dumps msg @ newline))"
proof -
  have 1: "msg_get (stamp c event) ''source'' = Inr (JStr (client_id c))"
    by (simp add: stamp_def msg_get_update_same)
  have 2: "\<forall>k. k \<noteq> ''source'' \<longrightarrow> msg_get (stamp c event) k = msg_get (JObj event) k"
    by (simp add: stamp_def msg_get_update_other)
  have 3: "send_to_server dumps c event = ToServer (dumps (stamp c event) @ newline)"
    by (simp add: send_to_server_def)
  have 4: "\<forall>loads line out raw.
         observe_line loads dumps c line = Inr out \<and> ToServer raw \<in> set out \<longrightarrow>
         (\<exists>ev. raw = dumps (stamp c ev) @ newline)"
    using observe_line_sends_stamped by blast
  have 5: "\<forall>s' out. handle_message dumps fails s msg sender_conn = Inr (s', out) \<longrightarrow>
         (\<forall>w \<in> set (writes out). snd w = dumps msg @ newline)"
    using handle_message_payload by blast
  from 1 2 3 4 5 show ?thesis by blast
qed


theorem source_identity_stamped_and_relayed_witness:
  "observe_line ex_loads ex_dumps (ex_client ''A'') ex_line_mpv_pause
      = Inr [ToServer (ex_dumps (stamp (ex_client ''A'')
               [(''event'', JStr ''pause''), (''paused'', JBool True)]) @ newline)]
   \<and> msg_get (stamp (ex_client ''A'') [(''event'', JStr ''pause''), (''paused'', JBool True)])
         ''source'' = Inr (JStr ''A'')
   \<and> handle_message ex_dumps (\<lambda>c. False) ex_relay (ex_pause True ''A'') 1
      = Inr (ex_relay\<lparr>current_pause := JBool True\<rparr>,
             [Logged (LogUpdatePause (JBool True)),
              Wrote 2 (ex_dumps (ex_pause True ''A'') @ newline),
              Wrote 3 (ex_dumps (ex_pause True ''A'') @ newline)])
   \<and> map snd (writes [Logged (LogUpdatePause (JBool True)),
              Wrote 2 (ex_dumps (ex_pause True ''A'') @ newline),
              Wrote 3 (ex_dumps (ex_pause True ''A'') @ newline)])
      = [ex_dumps (ex_pause True ''A'') @ newline, ex_dumps (ex_pause True ''A'') @ newline]"
proof -
  note t = source_identity_stamped_and_relayed
             [of "ex_client ''A''" "[(''event'', JStr ''pause''), (''paused'', JBool True)]"
                 ex_dumps "\<lambda>c. False" ex_relay "ex_pause True ''A''" 1]
  have o: "observe_line ex_loads ex_dumps (ex_client ''A'') ex_line_mpv_pause
      = Inr [ToServer (ex_dumps (stamp (ex_client ''A'')
               [(''event'', JStr ''pause''), (''paused'', JBool True)]) @ newline)]"
    by (simp add: observe_line_def ex_loads_def ex_line_mpv_pause_def ex_line_pause_def
          ex_line_seek_def ex_mpv_pause_def blank_def py_isspace_def msg_get_def dict_get_def
          client_log_def ex_client_def send_to_server_def)
  have src: "msg_get (stamp (ex_client ''A'') [(''event'', JStr ''pause''), (''paused'', JBool True)])
         ''source'' = Inr (JStr ''A'')"
    using t by (simp add: ex_client_def)
  have h: "handle_message ex_dumps (\<lambda>c. False) ex_relay (ex_pause True ''A'') 1
      = Inr (ex_relay\<lparr>current_pause := JBool True\<rparr>,
             [Logged (LogUpdatePause (JBool True)),
              Wrote 2 (ex_dumps (ex_pause True ''A'') @ newline),
              Wrote 3 (ex_dumps (ex_pause True ''A'') @ newline)])"
    by (simp add: handle_message_def msg_get_def dict_get_def ex_pause_def ex_relay_def
          debug_log_def broadcast_to_others_def send_one_def Let_def)
  from t h have "\<forall>w \<in> set (writes [Logged (LogUpdatePause (JBool True)),
              Wrote 2 (ex_dumps (ex_pause True ''A'') @ newline),
              Wrote 3 (ex_dumps (ex_pause True ''A'') @ newline)]).
         snd w = ex_dumps (ex_pause True ''A'') @ newline"
    by blast
  then have m: "map snd (writes [Logged (LogUpdatePause (JBool True)),
              Wrote 2 (ex_dumps (ex_pause True ''A'') @ newline),
              Wrote 3 (ex_dumps (ex_pause True ''A'') @ newline)])
      = [ex_dumps (ex_pause True ''A'') @ newline, ex_dumps (ex_pause True ''A'') @ newline]"
    by simp
  from o src h m show ?thesis by blast
qed

subsection \<open>No peer applies its own event\<close>

lemma listen_line_own_source:
  assumes "loads line = Some m" and "msg_get m ''source'' = Inr src"
      and "py_eq src (JStr (client_id c))"
  shows "listen_line loads dumps c line = Inr []"
  using assms by (simp add: listen_line_def)

text \<open>
  Claim C3. Two independent checks keep a peer from applying its own event, for any
  list of registered peers. The relay: no socket written in a broadcast is the sender's.
  The peer: a received message whose \<^verbatim>\<open>"source"\<close> equals the peer's identity yields no
  command to the player, in particular the peer's own stamped event if it came back. Put
  together, with every identity living on one connection: when a peer's stamped event
  arrives on that peer's connection, no peer the relay writes to has the identity the
  event carries.
\<close>

theorem no_self_echo:
  "(\<forall>s' out. handle_message dumps fails s msg sender_conn = Inr (s', out) \<longrightarrow>
        (\<forall>w \<in> set (writes out). fst w \<noteq> sender_conn))
   \<and> (\<forall>m src. loads line = Some m \<and> msg_get m ''source'' = Inr src
               \<and> py_eq src (JStr (client_id c)) \<longrightarrow>
        listen_line loads dumps c line = Inr [])
   \<and> (\<forall>event. loads line = Some (stamp c event) \<longrightarrow> listen_line loads dumps c line = Inr [])
   \<and> (\<forall>peers origin event s' out.
        (\<forall>p \<in> set peers. \<forall>q \<in> set peers.
            client_id (snd p) = client_id (snd q) \<longrightarrow> fst p = fst q)
        \<and> origin \<in> set peers
        \<and> handle_message dumps fails s (stamp (snd origin) event) (fst origin) = Inr (s', out) \<longrightarrow>
        (\<forall>q \<in> set peers. \<forall>w \<in> set (writes out).
            fst w = fst q \<longrightarrow> client_id (snd q) \<noteq> client_id (snd origin)))"
proof -
  have a: "\<forall>s' out. handle_message dumps fails s msg sender_conn = Inr (s', out) \<longrightarrow>
        (\<forall>w \<in> set (writes out). fst w \<noteq> sender_conn)"
    using handle_message_payload by blast
  have b: "\<forall>m src. loads line = Some m \<and> msg_get m ''source'' = Inr src
               \<and> py_eq src (JStr (client_id c)) \<longrightarrow>
        listen_line loads dumps c line = Inr []"
    using listen_line_own_source by blast
  have c: "\<forall>event. loads line = Some (stamp c event) \<longrightarrow> listen_line loads dumps c line = Inr []"
  proof (intro allI impI)
    fix event
    assume l: "loads line = Some (stamp c event)"
    have "msg_get (stamp c event) ''source'' = Inr (JStr (client_id c))"
      by (simp add: stamp_def msg_get_update_same)
    moreover have "py_eq (JStr (client_id c)) (JStr (client_id c))" by simp
    ultimately show "listen_line loads dumps c line = Inr []"
      using l by (rule listen_line_own_source [rotated])
  qed
  have d: "\<forall>peers origin event s' out.
        (\<forall>p \<in> set peers. \<forall>q \<in> set peers.
            client_id (snd p) = client_id (snd q) \<longrightarrow> fst p = fst q)
        \<and> origin \<in> set peers
        \<and> handle_message dumps fails s (stamp (snd origin) event) (fst origin) = Inr (s', out) \<longrightarrow>
        (\<forall>q \<in> set peers. \<forall>w \<in> set (writes out).
            fst w = fst q \<longrightarrow> client_id (snd q) \<noteq> client_id (snd origin))"
  proof (intro allI impI ballI)
    fix peers :: "(conn \<times> SyncClient) list" and origin event s' out q w
    assume h: "(\<forall>p \<in> set peers. \<forall>q \<in> set peers.
            client_id (snd p) = client_id (snd q) \<longrightarrow> fst p = fst q)
        \<and> origin \<in> set peers
        \<and> handle_message dumps fails s (stamp (snd origin) event) (fst origin) = Inr (s', out)"
      and q: "q \<in> set peers" and w: "w \<in> set (writes out)" and wq: "fst w = fst q"
    from h w have "fst w \<noteq> fst origin"
      using handle_message_payload by blast
    with wq have "fst q \<noteq> fst origin" by simp
    with h q show "client_id (snd q) \<noteq> client_id (snd origin)" by blast
  qed
  from a b c d show ?thesis by blast
qed


theorem no_self_echo_witness:
  "(1, ex_client ''A'') \<in> set ex_peers
   \<and> map fst ex_peers = [1, 2, 3]
   \<and> map (\<lambda>p. client_id (snd p)) ex_peers = [''A'', ''B'', ''C'']
   \<and> ex_loads ex_line_pause
        = Some (stamp (ex_client ''A'') [(''event'', JStr ''pause''), (''paused'', JBool True)])
   \<and> handle_message ex_dumps (\<lambda>c. False) ex_relay
          (stamp (ex_client ''A'') [(''event'', JStr ''pause''), (''paused'', JBool True)]) 1
        = Inr (ex_relay\<lparr>current_pause := JBool True\<rparr>,
               [Logged (LogUpdatePause (JBool True)),
                Wrote 2 (''pause'' @ newline), Wrote 3 (''pause'' @ newline)])
   \<and> map fst (writes [Logged (LogUpdatePause (JBool True)),
                Wrote 2 (''pause'' @ newline), Wrote 3 (''pause'' @ newline)]) = [2, 3]
   \<and> client_id (ex_client ''B'') \<noteq> client_id (ex_client ''A'')
   \<and> client_id (ex_client ''C'') \<noteq> client_id (ex_client ''A'')
   \<and> listen_line ex_loads ex_dumps (ex_client ''A'') ex_line_pause = Inr []
   \<and> listen_line ex_loads ex_dumps (ex_client ''B'') ex_line_pause
        = Inr [send_to_mpv ex_dumps [JStr ''set_property'', JStr ''pause'', JBool True]]"
proof -
  let ?ev = "[(''event'', JStr ''pause''), (''paused'', JBool True)]"
  let ?out = "[Logged (LogUpdatePause (JBool True)),
                Wrote 2 (''pause'' @ newline), Wrote 3 (''pause'' @ newline)]"
  note t = no_self_echo [of ex_dumps "\<lambda>c. False" ex_relay "stamp (ex_client ''A'') ?ev" 1
                            ex_loads ex_line_pause "ex_client ''A''"]
  have ids: "\<forall>p \<in> set ex_peers. \<forall>q \<in> set ex_peers.
       client_id (snd p) = client_id (snd q) \<longrightarrow> fst p = fst q"
    by (simp add: ex_peers_def ex_client_def)
  have mem: "(1, ex_client ''A'') \<in> set ex_peers" by (simp add: ex_peers_def)
  have conns: "map fst ex_peers = [1, 2, 3]" by (simp add: ex_peers_def)
  have names: "map (\<lambda>p. client_id (snd p)) ex_peers = [''A'', ''B'', ''C'']"
    by (simp add: ex_peers_def ex_client_def)
  have ld: "ex_loads ex_line_pause = Some (stamp (ex_client ''A'') ?ev)"
    by (simp add: ex_loads_def stamp_def ex_client_def ex_pause_def)
  have h: "handle_message ex_dumps (\<lambda>c. False) ex_relay (stamp (ex_client ''A'') ?ev) 1
        = Inr (ex_relay\<lparr>current_pause := JBool True\<rparr>, ?out)"
    by (simp add: handle_message_def msg_get_def dict_get_def stamp_def ex_client_def ex_relay_def
          debug_log_def broadcast_to_others_def send_one_def ex_dumps_def Let_def)
  have w: "map fst (writes ?out) = [2, 3]" by simp
  have "fst (1::conn, ex_client ''A'') = 1 \<and> snd (1::conn, ex_client ''A'') = ex_client ''A''"
    by simp
  with t ids mem h
  have d: "\<forall>q \<in> set ex_peers. \<forall>w \<in> set (writes ?out).
          fst w = fst q \<longrightarrow> client_id (snd q) \<noteq> client_id (ex_client ''A'')"
    by (metis (no_types, lifting))
  have nb: "client_id (ex_client ''B'') \<noteq> client_id (ex_client ''A'')"
    using d [rule_format, of "(2, ex_client ''B'')" "(2, ''pause'' @ newline)"]
    by (simp add: ex_peers_def)
  have nc: "client_id (ex_client ''C'') \<noteq> client_id (ex_client ''A'')"
    using d [rule_format, of "(3, ex_client ''C'')" "(3, ''pause'' @ newline)"]
    by (simp add: ex_peers_def)
  have own: "listen_line ex_loads ex_dumps (ex_client ''A'') ex_line_pause = Inr []"
    using t ld by blast
  have other: "listen_line ex_loads ex_dumps (ex_client ''B'') ex_line_pause
        = Inr [send_to_mpv ex_dumps [JStr ''set_property'', JStr ''pause'', JBool True]]"
    by (simp add: listen_line_def ex_loads_def ex_line_pause_def blank_def py_isspace_def
          ex_pause_def msg_get_def msg_item_def dict_get_def ex_client_def client_log_def)
  from mem conns names ld h w nb nc own other show ?thesis by blast
qed

subsection \<open>Events of kind seek\<close>






section \<open>Lines that do not decode\<close>


lemma split_nl_empty: "split_nl [] = None"
  by simp









section \<open>Connecting to the player\<close>

lemma connect_mpv_retry:
  assumes "\<forall>a \<in> set pre. unavailable (fst a) \<and> snd a \<le> deadline"
  shows "connect_mpv deadline (pre @ rest) =
           (case connect_mpv deadline rest of
              (st, sleeps) \<Rightarrow> (st, replicate (length pre) 0.1 @ sleeps))"
  using assms
proof (induction pre)
  case Nil
  then show ?case by simp
next
  case (Cons a pre)
  obtain d now where a: "a = (d, now)" by (cases a)
  from Cons.prems a obtain e where d: "d = DialRaises e"
      and e: "e = FileNotFoundError \<or> e = ConnectionRefusedError" and n: "now \<le> deadline"
    by (auto simp: unavailable_def)
  have "connect_mpv deadline (pre @ rest) =
           (case connect_mpv deadline rest of
              (st, sleeps) \<Rightarrow> (st, replicate (length pre) 0.1 @ sleeps))"
    using Cons by simp
  then show ?case using a d e n by (auto split: prod.splits)
qed

lemma connect_mpv_bounded:
  assumes "\<forall>a \<in> set as. unavailable (fst a)" and "paced t as" and "as \<noteq> []"
      and "deadline < t + 0.1 * real (length as - 1)"
  shows "fst (connect_mpv deadline as) = Failed TimeoutError"
  using assms
proof (induction as arbitrary: t)
  case Nil
  then show ?case by simp
next
  case (Cons a as)
  obtain d now where a: "a = (d, now)" by (cases a)
  from Cons.prems(1) a obtain e where d: "d = DialRaises e"
      and e: "e = FileNotFoundError \<or> e = ConnectionRefusedError"
    by (auto simp: unavailable_def)
  from Cons.prems(2) a have tn: "t \<le> now" and p: "paced (now + 0.1) as" by simp_all
  show ?case
  proof (cases "now > deadline")
    case True
    then show ?thesis using a d e by auto
  next
    case False
    have ne: "as \<noteq> []"
    proof
      assume "as = []"
      with Cons.prems(4) tn False show False by simp
    qed
    have len: "real (length (a # as) - 1) = real (length as - 1) + 1"
      using ne by (cases as) simp_all
    have "deadline < (now + 0.1) + 0.1 * real (length as - 1)"
      using Cons.prems(4) tn unfolding len by (simp add: algebra_simps)
    with Cons.IH [OF _ p ne] Cons.prems(1)
    have "fst (connect_mpv deadline as) = Failed TimeoutError" by simp
    then show ?thesis using a d e False by (auto split: prod.splits)
  qed
qed

lemma connect_mpv_only_timeout:
  assumes "\<forall>a \<in> set as. fst a = DialOk \<or> unavailable (fst a)"
  shows "fst (connect_mpv deadline as) \<in> {Connected, Retrying, Failed TimeoutError}"
  using assms
proof (induction as)
  case Nil
  then show ?case by simp
next
  case (Cons a as)
  obtain d now where a: "a = (d, now)" by (cases a)
  show ?case
  proof (cases d)
    case DialOk
    then show ?thesis using a by simp
  next
    case (DialRaises e)
    with Cons.prems a have e: "e = FileNotFoundError \<or> e = ConnectionRefusedError"
      by (auto simp: unavailable_def)
    from Cons have "fst (connect_mpv deadline as) \<in> {Connected, Retrying, Failed TimeoutError}"
      by simp
    then show ?thesis using a DialRaises e by (auto split: prod.splits)
  qed
qed


text \<open>
  Claim C7, as the code has it. While the control channel is unavailable (the attempt
  raises \<^verbatim>\<open>FileNotFoundError\<close> or \<^verbatim>\<open>ConnectionRefusedError\<close>) and the clock read after
  the failure is not past the deadline of start + 5 s, \<^verbatim>\<open>connect\<close> sleeps 0.1 s and tries
  again; the first such failure read after the deadline raises \<^verbatim>\<open>TimeoutError\<close>, which
  happens within 52 attempts when the clock advances by the sleeps; an attempt that
  succeeds ends the loop. While the channel is unavailable no other error leaves
  \<^verbatim>\<open>connect\<close>, and with a relay that accepts, the timeout is the only error of a channel
  that is unavailable and then available. Other errors do leave \<^verbatim>\<open>connect\<close>: one of
  the control-channel attempt that is neither of the two, and one of the relay connect.
\<close>

theorem connect_retries_until_deadline:
  assumes unavail: "\<forall>a \<in> set pre. unavailable (fst a)"
  shows "((\<forall>a \<in> set pre. snd a \<le> t0 + 5) \<longrightarrow>
            connect t0 pre server = (Retrying, replicate (length pre) 0.1))
       \<and> ((\<forall>a \<in> set pre. snd a \<le> t0 + 5) \<and> unavailable d \<and> now > t0 + 5 \<longrightarrow>
            connect t0 (pre @ (d, now) # rest) server
              = (Failed TimeoutError, replicate (length pre) 0.1))
       \<and> ((\<forall>a \<in> set pre. snd a \<le> t0 + 5) \<longrightarrow>
            connect t0 (pre @ (DialOk, now) # rest) server
              = (case server of DialOk \<Rightarrow> Connected | DialRaises e \<Rightarrow> Failed e,
                 replicate (length pre) 0.1))
       \<and> (\<forall>e. (\<forall>a \<in> set pre. snd a \<le> t0 + 5) \<and> \<not> unavailable (DialRaises e) \<longrightarrow>
            connect t0 (pre @ (DialRaises e, now) # rest) server
              = (Failed e, replicate (length pre) 0.1))
       \<and> (paced t0 pre \<and> 51 < length pre \<longrightarrow>
            fst (connect t0 pre server) = Failed TimeoutError)
       \<and> fst (connect t0 pre server) \<in> {Retrying, Failed TimeoutError}
       \<and> (\<forall>as. (\<forall>a \<in> set as. fst a = DialOk \<or> unavailable (fst a)) \<longrightarrow>
            fst (connect t0 as DialOk) \<in> {Connected, Retrying, Failed TimeoutError})"
proof -
  have within: "\<forall>a \<in> set pre. unavailable (fst a) \<and> snd a \<le> t0 + 5"
    if "\<forall>a \<in> set pre. snd a \<le> t0 + 5"
    using that unavail by blast
  have 1: "connect t0 pre server = (Retrying, replicate (length pre) 0.1)"
    if "\<forall>a \<in> set pre. snd a \<le> t0 + 5"
    using connect_mpv_retry [OF within [OF that], of "[]"] by (simp add: connect_def)
  have 2: "connect t0 (pre @ (d, now) # rest) server
              = (Failed TimeoutError, replicate (length pre) 0.1)"
    if "\<forall>a \<in> set pre. snd a \<le> t0 + 5" "unavailable d" "now > t0 + 5"
  proof -
    from that(2) obtain e where "d = DialRaises e"
        "e = FileNotFoundError \<or> e = ConnectionRefusedError"
      by (auto simp: unavailable_def)
    then have "connect_mpv (t0 + 5) ((d, now) # rest) = (Failed TimeoutError, [])"
      using that(3) by auto
    then show ?thesis
      using connect_mpv_retry [OF within [OF that(1)], of "(d, now) # rest"]
      by (simp add: connect_def)
  qed
  have 3: "connect t0 (pre @ (DialOk, now) # rest) server
              = (case server of DialOk \<Rightarrow> Connected | DialRaises e \<Rightarrow> Failed e,
                 replicate (length pre) 0.1)"
    if "\<forall>a \<in> set pre. snd a \<le> t0 + 5"
    using connect_mpv_retry [OF within [OF that], of "(DialOk, now) # rest"]
    by (cases server) (simp_all add: connect_def)
  have 7: "\<forall>e. (\<forall>a \<in> set pre. snd a \<le> t0 + 5) \<and> \<not> unavailable (DialRaises e) \<longrightarrow>
            connect t0 (pre @ (DialRaises e, now) # rest) server
              = (Failed e, replicate (length pre) 0.1)"
  proof (intro allI impI)
    fix e
    assume h: "(\<forall>a \<in> set pre. snd a \<le> t0 + 5) \<and> \<not> unavailable (DialRaises e)"
    then have "connect_mpv (t0 + 5) ((DialRaises e, now) # rest) = (Failed e, [])"
      by (simp add: unavailable_def)
    then show "connect t0 (pre @ (DialRaises e, now) # rest) server
              = (Failed e, replicate (length pre) 0.1)"
      using connect_mpv_retry [of pre "t0 + 5" "(DialRaises e, now) # rest"] within h
      by (simp add: connect_def)
  qed
  have 4: "fst (connect t0 pre server) = Failed TimeoutError"
    if "paced t0 pre" "51 < length pre"
  proof -
    have ne: "pre \<noteq> []" using that(2) by auto
    have "(50::real) < real (length pre - 1)" using that(2) by linarith
    then have "t0 + 5 < t0 + 0.1 * real (length pre - 1)" by simp
    from connect_mpv_bounded [OF unavail that(1) ne this]
    show ?thesis by (auto simp: connect_def split: prod.splits connect_status.splits)
  qed
  have 6: "fst (connect t0 as DialOk) \<in> {Connected, Retrying, Failed TimeoutError}"
    if "\<forall>a \<in> set as. fst a = DialOk \<or> unavailable (fst a)" for as
    using connect_mpv_only_timeout [OF that, of "t0 + 5"]
    by (auto simp: connect_def split: prod.splits connect_status.splits)
  have "fst (connect_mpv (t0 + 5) pre) \<in> {Connected, Retrying, Failed TimeoutError}"
    using connect_mpv_only_timeout [of pre "t0 + 5"] unavail by blast
  moreover have "fst (connect_mpv (t0 + 5) pre) \<noteq> Connected"
    using unavail
  proof (induction pre)
    case Nil
    then show ?case by simp
  next
    case (Cons a pre)
    obtain d' n' where a: "a = (d', n')" by (cases a)
    with Cons.prems obtain e where "d' = DialRaises e"
        "e = FileNotFoundError \<or> e = ConnectionRefusedError"
      by (auto simp: unavailable_def)
    with Cons a show ?case by (auto split: prod.splits)
  qed
  ultimately have 5: "fst (connect t0 pre server) \<in> {Retrying, Failed TimeoutError}"
    by (auto simp: connect_def split: prod.splits connect_status.splits)
  from 1 2 3 4 5 6 7 show ?thesis by blast
qed

theorem connect_retries_until_deadline_witness:
  "list_all (\<lambda>a. unavailable (fst a)) ex_attempts
   \<and> paced 0 ex_attempts \<and> 51 < length ex_attempts
   \<and> fst (connect 0 ex_attempts DialOk) = Failed TimeoutError
   \<and> connect 0 ex_attempts DialOk = (Failed TimeoutError, replicate 51 0.1)
   \<and> connect 0 (take 3 ex_attempts) DialOk = (Retrying, [0.1, 0.1, 0.1])
   \<and> connect 0 (take 3 ex_attempts @ [(DialOk, 0.3)]) DialOk = (Connected, [0.1, 0.1, 0.1])"
proof -
  have u: "\<forall>a \<in> set ex_attempts. unavailable (fst a)"
    by (simp add: ex_attempts_def unavailable_def)
  have p: "paced 0 ex_attempts"
    by (simp add: ex_attempts_def upt_rec)
  have l: "51 < length ex_attempts"
    by (simp add: ex_attempts_def)
  note t = connect_retries_until_deadline [OF u, of 0 DialOk]
  from t p l have f: "fst (connect 0 ex_attempts DialOk) = Failed TimeoutError"
    by blast
  have a: "list_all (\<lambda>a. unavailable (fst a)) ex_attempts"
    using u by (simp add: list_all_iff)
  have c: "connect 0 ex_attempts DialOk = (Failed TimeoutError, replicate 51 0.1)"
    by (simp add: ex_attempts_def upt_rec connect_def numeral_eq_Suc)
  have r: "connect 0 (take 3 ex_attempts) DialOk = (Retrying, [0.1, 0.1, 0.1])"
    by (simp add: ex_attempts_def upt_rec connect_def)
  have k: "connect 0 (take 3 ex_attempts @ [(DialOk, 0.3)]) DialOk = (Connected, [0.1, 0.1, 0.1])"
    by (simp add: ex_attempts_def upt_rec connect_def)
  from a p l f c r k show ?thesis by blast
qed

text \<open>
  The timeout is not the only error that ends the start-up: a relay that refuses the
  connection, and a control-channel error other than the two retried, leave \<^verbatim>\<open>connect\<close>
  as they are.
\<close>

theorem connect_other_errors_counterexample:
  "connect 0 [(DialOk, 0)] (DialRaises ConnectionRefusedError) = (Failed ConnectionRefusedError, [])
   \<and> connect 0 [(DialRaises OSError, 0)] DialOk = (Failed OSError, [])"
  by (simp add: connect_def)

section \<open>Properties of the relay with several handler threads\<close>

subsection \<open>Steps\<close>

lemma goto_fields:
  "relay (goto i p g) = relay g" "lock (goto i p g) = lock g" "trace (goto i p g) = trace g"
  "length (handlers (goto i p g)) = length (handlers g)"
  "handlers (goto i p g) = (handlers g)[i := (handlers g ! i)\<lparr>h_pc := p\<rparr>]"
  by (simp_all add: goto_def)

lemma emit_fields:
  "relay (emit i es g) = relay g" "lock (emit i es g) = lock g"
  "handlers (emit i es g) = handlers g" "trace (emit i es g) = trace g @ map (Pair i) es"
  by (simp_all add: emit_def)

lemma lock_inv_iff:
  "lock_inv g \<longleftrightarrow>
     (\<forall>j < length (handlers g). sending (h_pc (handlers g ! j)) = (lock g = Some j))"
  by (auto simp: lock_inv_def list_all_iff)

lemma step_in_range: "step dumps fails g i = Some g' \<Longrightarrow> i < length (handlers g)"
  by (auto simp: step_def split: if_splits)

lemma step_length:
  "step dumps fails g i = Some g' \<Longrightarrow> length (handlers g') = length (handlers g)"
  by (auto simp: step_def Let_def goto_fields emit_fields
           split: if_splits pc.splits list.splits prod.splits)

lemma step_others:
  "step dumps fails g i = Some g' \<Longrightarrow> j \<noteq> i \<Longrightarrow> handlers g' ! j = handlers g ! j"
  by (auto simp: step_def Let_def goto_fields emit_fields
           split: if_splits pc.splits list.splits prod.splits)

lemma step_lock:
  assumes "step dumps fails g i = Some g'"
  shows "(lock g' = lock g \<and> sending (h_pc (handlers g' ! i)) = sending (h_pc (handlers g ! i))
            \<and> (h_pc (handlers g ! i) = AtLock \<longrightarrow> False))
       \<or> (h_pc (handlers g ! i) = AtLock \<and> lock g = None \<and> lock g' = Some i
            \<and> sending (h_pc (handlers g' ! i)))
       \<or> (h_pc (handlers g ! i) = AtSend [] \<and> lock g' = None
            \<and> \<not> sending (h_pc (handlers g' ! i)))"
  using assms
  by (auto simp: step_def Let_def goto_fields emit_fields compare_def
           split: if_splits pc.splits list.splits prod.splits sum.splits option.splits)

lemma step_lock_inv:
  assumes inv: "lock_inv g" and st: "step dumps fails g i = Some g'"
  shows "lock_inv g'"
proof -
  have ir: "i < length (handlers g)" using st by (rule step_in_range)
  have len: "length (handlers g') = length (handlers g)" using st by (rule step_length)
  have at_i: "sending (h_pc (handlers g ! i)) = (lock g = Some i)"
    using inv ir by (simp add: lock_inv_iff)
  have goal: "sending (h_pc (handlers g' ! j)) = (lock g' = Some j)"
    if j: "j < length (handlers g)" for j
  proof -
    have at_j: "sending (h_pc (handlers g ! j)) = (lock g = Some j)"
      using inv j by (simp add: lock_inv_iff)
    show ?thesis
    proof (cases "j = i")
      case True
      with step_lock [OF st] at_i show ?thesis by auto
    next
      case False
      then have same: "handlers g' ! j = handlers g ! j"
        using step_others [OF st] by simp
      from step_lock [OF st] at_i at_j False show ?thesis
        unfolding same by auto
    qed
  qed
  then show ?thesis by (simp add: lock_inv_iff len)
qed

lemma run_lock_inv:
  "lock_inv g \<Longrightarrow> run dumps fails g sched = Some g' \<Longrightarrow> lock_inv g'"
proof (induction sched arbitrary: g)
  case Nil
  then show ?case by simp
next
  case (Cons i sched)
  then show ?case
    by (auto split: option.splits dest: step_lock_inv)
qed

lemma step_clients:
  assumes "step dumps fails g i = Some g'" and "clients (relay g') \<noteq> clients (relay g)"
  shows "lock g = None \<and> \<not> deciding (h_pc (handlers g ! i)) \<and> \<not> sending (h_pc (handlers g ! i))"
  using assms
  by (auto simp: step_def Let_def goto_fields emit_fields
           split: if_splits pc.splits list.splits prod.splits)

lemma step_trace:
  assumes st: "step dumps fails g i = Some g'"
  shows "\<exists>es. trace g' = trace g @ map (Pair i) es
              \<and> (writes es \<noteq> [] \<longrightarrow> sending (h_pc (handlers g ! i)))"
proof (cases "sending (h_pc (handlers g ! i))")
  case True
  then obtain cs where pc: "h_pc (handlers g ! i) = AtSend cs"
    by (cases "h_pc (handlers g ! i)") simp_all
  show ?thesis
  proof (cases cs)
    case Nil
    with st pc have "trace g' = trace g @ map (Pair i) []"
      by (auto simp: step_def Let_def goto_fields split: if_splits)
    with True show ?thesis by blast
  next
    case (Cons c rest)
    with st pc have "trace g' = trace g @ map (Pair i)
        (send_one fails (relay g) (dumps (h_msg (handlers g ! i)) @ newline)
           (h_conn (handlers g ! i)) c)"
      by (auto simp: step_def Let_def goto_fields emit_fields split: if_splits)
    with True show ?thesis by blast
  qed
next
  case False
  have "\<exists>es. trace g' = trace g @ map (Pair i) es \<and> writes es = []"
  proof (cases "h_pc (handlers g ! i)")
    case AtRegister
    with st have "trace g' = trace g @ map (Pair i) []"
      by (auto simp: step_def Let_def goto_fields split: if_splits)
    then show ?thesis by (intro exI [of _ "[]"]) simp
  next
    case AtCompare
    obtain p es where c: "compare (relay g) (h_msg (handlers g ! i)) = (p, es)"
      by (cases "compare (relay g) (h_msg (handlers g ! i))")
    then have "writes es = []"
      by (auto simp: compare_def Let_def writes_debug_log
               split: sum.splits if_splits option.splits)
    moreover from st AtCompare c have "trace g' = trace g @ map (Pair i) es"
      by (auto simp: step_def Let_def goto_fields emit_fields split: if_splits)
    ultimately show ?thesis by blast
  next
    case (AtSetPause v)
    with st have "trace g' = trace g @ map (Pair i)
        (debug_log (relay g\<lparr>current_pause := v\<rparr>) (LogUpdatePause v))"
      by (auto simp: step_def Let_def goto_fields emit_fields split: if_splits)
    then show ?thesis using writes_debug_log by blast
  next
    case (AtSetTime v d)
    with st have "trace g' = trace g @ map (Pair i)
        (debug_log (relay g\<lparr>current_time := v\<rparr>) (LogUpdateTime v d))"
      by (auto simp: step_def Let_def goto_fields emit_fields split: if_splits)
    then show ?thesis using writes_debug_log by blast
  next
    case AtLock
    with st have "trace g' = trace g @ map (Pair i) []"
      by (auto simp: step_def Let_def goto_fields split: if_splits)
    then show ?thesis by (intro exI [of _ "[]"]) simp
  next
    case (AtSend cs)
    with False show ?thesis by simp
  next
    case (AtDeregister err)
    with st have "trace g' = trace g @ map (Pair i) [Closed (h_conn (handlers g ! i))]"
      by (auto simp: step_def Let_def goto_fields emit_fields split: if_splits)
    then show ?thesis by (intro exI [of _ "[Closed (h_conn (handlers g ! i))]"]) simp
  next
    case AtEnd
    with st show ?thesis by (auto simp: step_def Let_def split: if_splits)
  qed
  then show ?thesis by auto
qed

lemma step_deciding:
  assumes "i < length (handlers g)" and "deciding (h_pc (handlers g ! i))"
  shows "\<exists>g'. step dumps fails g i = Some g' \<and> lock g' = lock g"
  using assms
  by (cases "h_pc (handlers g ! i)")
     (auto simp: step_def Let_def goto_fields emit_fields split: prod.splits)

lemma step_waits:
  assumes "h_pc (handlers g ! i) = AtLock" and "lock g \<noteq> None"
  shows "step dumps fails g i = None"
  using assms by (auto simp: step_def Let_def)

lemma step_distinct:
  assumes "distinct (clients (relay g))" and "step dumps fails g i = Some g'"
  shows "distinct (clients (relay g'))"
  using assms
  by (auto simp: step_def Let_def goto_fields emit_fields clients_add_distinct
                 clients_discard_distinct
           split: if_splits pc.splits list.splits prod.splits)

subsection \<open>A handler that runs alone does what \<^verbatim>\<open>_handle_message\<close> does\<close>

lemma run_append:
  "run dumps fails g (xs @ ys) =
     (case run dumps fails g xs of None \<Rightarrow> None | Some g1 \<Rightarrow> run dumps fails g1 ys)"
  by (induction xs arbitrary: g) (auto split: option.splits)

lemma compare_handle_message:
  "compare s msg = (AtDeregister (Some e), es) \<Longrightarrow> handle_message dumps fails s msg c = Inl e"
  "compare s msg = (AtDeregister None, es) \<Longrightarrow> handle_message dumps fails s msg c = Inr (s, es)"
  "compare s msg = (AtSetPause v, es) \<Longrightarrow>
     es = [] \<and> handle_message dumps fails s msg c =
       Inr (s\<lparr>current_pause := v\<rparr>,
            debug_log (s\<lparr>current_pause := v\<rparr>) (LogUpdatePause v)
            @ broadcast_to_others dumps fails (s\<lparr>current_pause := v\<rparr>) msg c)"
  "compare s msg = (AtSetTime t d, es) \<Longrightarrow>
     es = [] \<and> handle_message dumps fails s msg c =
       Inr (s\<lparr>current_time := t\<rparr>,
            debug_log (s\<lparr>current_time := t\<rparr>) (LogUpdateTime t d)
            @ broadcast_to_others dumps fails (s\<lparr>current_time := t\<rparr>) msg c)"
  by (auto simp: compare_def handle_message_def Let_def
           split: sum.splits if_splits option.splits)

lemma compare_labels:
  "compare s msg = (p, es) \<Longrightarrow>
     (\<exists>err. p = AtDeregister err) \<or> (\<exists>v. p = AtSetPause v) \<or> (\<exists>t d. p = AtSetTime t d)"
  by (auto simp: compare_def Let_def split: sum.splits if_splits option.splits)

lemma send_loop:
  assumes "i < length (handlers g)" and "h_pc (handlers g ! i) = AtSend cs"
  shows "\<exists>g'. run dumps fails g (replicate (length cs) i) = Some g'
           \<and> relay g' = relay g \<and> lock g' = lock g
           \<and> length (handlers g') = length (handlers g)
           \<and> handlers g' ! i = (handlers g ! i)\<lparr>h_pc := AtSend []\<rparr>
           \<and> trace g' = trace g @ map (Pair i)
               (concat (map (send_one fails (relay g) (dumps (h_msg (handlers g ! i)) @ newline)
                               (h_conn (handlers g ! i))) cs))"
  using assms
proof (induction cs arbitrary: g)
  case Nil
  then show ?case by (cases "handlers g ! i") simp
next
  case (Cons c cs)
  let ?es = "send_one fails (relay g) (dumps (h_msg (handlers g ! i)) @ newline)
               (h_conn (handlers g ! i)) c"
  let ?g1 = "emit i ?es (goto i (AtSend cs) g)"
  have s1: "step dumps fails g i = Some ?g1"
    using Cons.prems by (simp add: step_def Let_def)
  have r1: "i < length (handlers ?g1)" "h_pc (handlers ?g1 ! i) = AtSend cs"
    using Cons.prems by (simp_all add: goto_fields emit_fields)
  from Cons.IH [OF r1] obtain g' where
    g': "run dumps fails ?g1 (replicate (length cs) i) = Some g'"
        "relay g' = relay ?g1" "lock g' = lock ?g1"
        "length (handlers g') = length (handlers ?g1)"
        "handlers g' ! i = (handlers ?g1 ! i)\<lparr>h_pc := AtSend []\<rparr>"
        "trace g' = trace ?g1 @ map (Pair i)
               (concat (map (send_one fails (relay ?g1) (dumps (h_msg (handlers ?g1 ! i)) @ newline)
                               (h_conn (handlers ?g1 ! i))) cs))"
    by blast
  have "run dumps fails g (replicate (length (c # cs)) i) = Some g'"
    using s1 g'(1) by simp
  moreover have "handlers g' ! i = (handlers g ! i)\<lparr>h_pc := AtSend []\<rparr>"
    using g'(5) Cons.prems(1) by (simp add: goto_fields emit_fields)
  moreover have "trace g' = trace g @ map (Pair i)
               (concat (map (send_one fails (relay g) (dumps (h_msg (handlers g ! i)) @ newline)
                               (h_conn (handlers g ! i))) (c # cs)))"
    using g'(6) Cons.prems(1) by (simp add: goto_fields emit_fields)
  ultimately show ?case
    using g'(2,3,4) by (simp add: goto_fields emit_fields)
qed

lemma broadcast_round:
  assumes ir: "i < length (handlers g)" and pc: "h_pc (handlers g ! i) = AtLock"
      and free: "lock g = None"
  shows "\<exists>sched g'. set sched \<subseteq> {i} \<and> run dumps fails g sched = Some g'
           \<and> relay g' = relay g \<and> lock g' = None
           \<and> h_pc (handlers g' ! i) = AtDeregister None
           \<and> trace g' = trace g @ map (Pair i)
                (broadcast_to_others dumps fails (relay g) (h_msg (handlers g ! i))
                   (h_conn (handlers g ! i)))"
proof -
  let ?cs = "clients (relay g)"
  let ?g1 = "goto i (AtSend ?cs) (g\<lparr>lock := Some i\<rparr>)"
  have s1: "step dumps fails g i = Some ?g1"
    using ir pc free by (simp add: step_def Let_def)
  have r1: "i < length (handlers ?g1)" "h_pc (handlers ?g1 ! i) = AtSend ?cs"
    using ir by (simp_all add: goto_fields)
  from send_loop [OF r1, of dumps fails] obtain g2 where
    g2: "run dumps fails ?g1 (replicate (length ?cs) i) = Some g2"
        "relay g2 = relay ?g1" "lock g2 = lock ?g1"
        "length (handlers g2) = length (handlers ?g1)"
        "handlers g2 ! i = (handlers ?g1 ! i)\<lparr>h_pc := AtSend []\<rparr>"
        "trace g2 = trace ?g1 @ map (Pair i)
               (concat (map (send_one fails (relay ?g1) (dumps (h_msg (handlers ?g1 ! i)) @ newline)
                               (h_conn (handlers ?g1 ! i))) ?cs))"
    by blast
  let ?g3 = "goto i (AtDeregister None) (g2\<lparr>lock := None\<rparr>)"
  have ir2: "i < length (handlers g2)" using g2(4) ir by (simp add: goto_fields)
  have s3: "step dumps fails g2 i = Some ?g3"
    using ir2 g2(5) by (simp add: step_def Let_def)
  have "run dumps fails g (i # replicate (length ?cs) i @ [i]) = Some ?g3"
    using s1 g2(1) s3 by (simp add: run_append)
  moreover have "set (i # replicate (length ?cs) i @ [i]) \<subseteq> {i}" by auto
  moreover have "relay ?g3 = relay g" using g2(2) by (simp add: goto_fields)
  moreover have "lock ?g3 = None" by (simp add: goto_fields)
  moreover have "h_pc (handlers ?g3 ! i) = AtDeregister None"
    using ir2 by (simp add: goto_fields)
  moreover have "trace ?g3 = trace g @ map (Pair i)
                (broadcast_to_others dumps fails (relay g) (h_msg (handlers g ! i))
                   (h_conn (handlers g ! i)))"
    using g2(6) ir by (simp add: goto_fields broadcast_to_others_def)
  ultimately show ?thesis by blast
qed

lemma solo_run_is_handle_message:
  assumes ir: "i < length (handlers g)" and pc: "h_pc (handlers g ! i) = AtCompare"
      and free: "lock g = None"
  shows "case handle_message dumps fails (relay g) (h_msg (handlers g ! i))
                (h_conn (handlers g ! i)) of
           Inl e \<Rightarrow>
             (\<exists>g'. step dumps fails g i = Some g' \<and> relay g' = relay g
                  \<and> h_pc (handlers g' ! i) = AtDeregister (Some e))
         | Inr (s', out) \<Rightarrow>
             (\<exists>sched g'. set sched \<subseteq> {i} \<and> run dumps fails g sched = Some g'
                  \<and> relay g' = s' \<and> lock g' = None
                  \<and> map snd (trace g') = map snd (trace g) @ out
                  \<and> h_pc (handlers g' ! i) = AtDeregister None)"
proof -
  let ?m = "h_msg (handlers g ! i)" and ?c = "h_conn (handlers g ! i)"
  obtain p es where cmp: "compare (relay g) ?m = (p, es)"
    by (cases "compare (relay g) ?m")
  let ?g1 = "emit i es (goto i p g)"
  have s1: "step dumps fails g i = Some ?g1"
    using ir pc cmp by (simp add: step_def Let_def)
  have f1: "relay ?g1 = relay g" "lock ?g1 = None" "h_pc (handlers ?g1 ! i) = p"
           "trace ?g1 = trace g @ map (Pair i) es" "i < length (handlers ?g1)"
           "h_msg (handlers ?g1 ! i) = ?m" "h_conn (handlers ?g1 ! i) = ?c"
    using ir free by (simp_all add: goto_fields emit_fields)
  from compare_labels [OF cmp] consider
      (err) e where "p = AtDeregister (Some e)"
    | (skip) "p = AtDeregister None"
    | (pause) v where "p = AtSetPause v"
    | (time) t d where "p = AtSetTime t d"
    by (metis option.exhaust)
  then show ?thesis
  proof cases
    case err
    then have "handle_message dumps fails (relay g) ?m ?c = Inl e"
      using cmp compare_handle_message(1) by blast
    then show ?thesis using s1 f1 err by simp
  next
    case skip
    then have "handle_message dumps fails (relay g) ?m ?c = Inr (relay g, es)"
      using cmp compare_handle_message(2) by blast
    then have hm: "handle_message dumps fails (relay g) ?m ?c = Inr (relay g, es)" .
    have "\<exists>sched g'. set sched \<subseteq> {i} \<and> run dumps fails g sched = Some g'
            \<and> relay g' = relay g \<and> lock g' = None
            \<and> map snd (trace g') = map snd (trace g) @ es
            \<and> h_pc (handlers g' ! i) = AtDeregister None"
    proof (intro exI conjI)
      show "set [i] \<subseteq> {i}" by simp
      show "run dumps fails g [i] = Some ?g1" using s1 by simp
      show "relay ?g1 = relay g" "lock ?g1 = None" using f1 by simp_all
      show "map snd (trace ?g1) = map snd (trace g) @ es" using f1(4) by (simp add: comp_def)
      show "h_pc (handlers ?g1 ! i) = AtDeregister None" using f1(3) skip by simp
    qed
    then show ?thesis using hm by simp
  next
    case pause
    let ?s' = "relay g\<lparr>current_pause := v\<rparr>"
    let ?log = "debug_log ?s' (LogUpdatePause v)"
    from cmp pause compare_handle_message(3) [of "relay g" ?m v es dumps fails ?c]
    have es: "es = []"
      and hm: "handle_message dumps fails (relay g) ?m ?c =
                 Inr (?s', ?log @ broadcast_to_others dumps fails ?s' ?m ?c)"
      by simp_all
    let ?g2 = "emit i ?log (goto i AtLock (?g1\<lparr>relay := ?s'\<rparr>))"
    have s2: "step dumps fails ?g1 i = Some ?g2"
      using f1 pause by (simp add: step_def Let_def)
    have f2: "i < length (handlers ?g2)" "h_pc (handlers ?g2 ! i) = AtLock" "lock ?g2 = None"
             "relay ?g2 = ?s'" "h_msg (handlers ?g2 ! i) = ?m" "h_conn (handlers ?g2 ! i) = ?c"
             "trace ?g2 = trace g @ map (Pair i) ?log"
      using ir free es by (simp_all add: goto_fields emit_fields)
    from broadcast_round [OF f2(1,2,3), of dumps fails] obtain sched g' where
      r: "set sched \<subseteq> {i}" "run dumps fails ?g2 sched = Some g'" "relay g' = relay ?g2"
         "lock g' = None" "h_pc (handlers g' ! i) = AtDeregister None"
         "trace g' = trace ?g2 @ map (Pair i)
                (broadcast_to_others dumps fails (relay ?g2) (h_msg (handlers ?g2 ! i))
                   (h_conn (handlers ?g2 ! i)))"
      by blast
    have "\<exists>sched g'. set sched \<subseteq> {i} \<and> run dumps fails g sched = Some g'
            \<and> relay g' = ?s' \<and> lock g' = None
            \<and> map snd (trace g') = map snd (trace g)
                  @ ?log @ broadcast_to_others dumps fails ?s' ?m ?c
            \<and> h_pc (handlers g' ! i) = AtDeregister None"
    proof (intro exI conjI)
      show "set (i # i # sched) \<subseteq> {i}" using r(1) by simp
      show "run dumps fails g (i # i # sched) = Some g'" using s1 s2 r(2) by simp
      show "relay g' = ?s'" using r(3) f2(4) by simp
      show "lock g' = None" using r(4) .
      show "map snd (trace g') = map snd (trace g)
                  @ ?log @ broadcast_to_others dumps fails ?s' ?m ?c"
        unfolding r(6) f2(4,5,6,7) by (simp add: comp_def)
      show "h_pc (handlers g' ! i) = AtDeregister None" using r(5) .
    qed
    then show ?thesis using hm by simp
  next
    case time
    let ?s' = "relay g\<lparr>current_time := t\<rparr>"
    let ?log = "debug_log ?s' (LogUpdateTime t d)"
    from cmp time compare_handle_message(4) [of "relay g" ?m t d es dumps fails ?c]
    have es: "es = []"
      and hm: "handle_message dumps fails (relay g) ?m ?c =
                 Inr (?s', ?log @ broadcast_to_others dumps fails ?s' ?m ?c)"
      by simp_all
    let ?g2 = "emit i ?log (goto i AtLock (?g1\<lparr>relay := ?s'\<rparr>))"
    have s2: "step dumps fails ?g1 i = Some ?g2"
      using f1 time by (simp add: step_def Let_def)
    have f2: "i < length (handlers ?g2)" "h_pc (handlers ?g2 ! i) = AtLock" "lock ?g2 = None"
             "relay ?g2 = ?s'" "h_msg (handlers ?g2 ! i) = ?m" "h_conn (handlers ?g2 ! i) = ?c"
             "trace ?g2 = trace g @ map (Pair i) ?log"
      using ir free es by (simp_all add: goto_fields emit_fields)
    from broadcast_round [OF f2(1,2,3), of dumps fails] obtain sched g' where
      r: "set sched \<subseteq> {i}" "run dumps fails ?g2 sched = Some g'" "relay g' = relay ?g2"
         "lock g' = None" "h_pc (handlers g' ! i) = AtDeregister None"
         "trace g' = trace ?g2 @ map (Pair i)
                (broadcast_to_others dumps fails (relay ?g2) (h_msg (handlers ?g2 ! i))
                   (h_conn (handlers ?g2 ! i)))"
      by blast
    have "\<exists>sched g'. set sched \<subseteq> {i} \<and> run dumps fails g sched = Some g'
            \<and> relay g' = ?s' \<and> lock g' = None
            \<and> map snd (trace g') = map snd (trace g)
                  @ ?log @ broadcast_to_others dumps fails ?s' ?m ?c
            \<and> h_pc (handlers g' ! i) = AtDeregister None"
    proof (intro exI conjI)
      show "set (i # i # sched) \<subseteq> {i}" using r(1) by simp
      show "run dumps fails g (i # i # sched) = Some g'" using s1 s2 r(2) by simp
      show "relay g' = ?s'" using r(3) f2(4) by simp
      show "lock g' = None" using r(4) .
      show "map snd (trace g') = map snd (trace g)
                  @ ?log @ broadcast_to_others dumps fails ?s' ?m ?c"
        unfolding r(6) f2(4,5,6,7) by (simp add: comp_def)
      show "h_pc (handlers g' ! i) = AtDeregister None" using r(5) .
    qed
    then show ?thesis using hm by simp
  qed
qed

subsection \<open>What the lock guards\<close>

text \<open>
  Claim C8, as the code has it. The one lock guards the peer set and the sending loop:
  after any schedule the lock is held exactly by the thread that is in the loop of
  \<^verbatim>\<open>broadcast_to_others\<close>, so at most one thread is; the peer set changes only in a
  step that finds the lock free, and a socket is written only by the holder of the lock;
  a thread that wants to broadcast waits while another holds the lock. The compare and
  the update of the canonical state are not under the lock: a thread at one of them can
  always take its step, whoever holds the lock, and the step leaves the lock as it is.
\<close>

theorem lock_guards_sending_only:
  assumes inv: "lock_inv g" and rn: "run dumps fails g sched = Some g1"
  shows "lock_inv g1
       \<and> (\<forall>i j. i < length (handlers g1) \<and> j < length (handlers g1)
              \<and> sending (h_pc (handlers g1 ! i)) \<and> sending (h_pc (handlers g1 ! j)) \<longrightarrow> i = j)
       \<and> (\<forall>i g2. step dumps fails g1 i = Some g2 \<longrightarrow>
              (clients (relay g2) \<noteq> clients (relay g1) \<longrightarrow> lock g1 = None)
              \<and> (writes (map snd (trace g2)) \<noteq> writes (map snd (trace g1)) \<longrightarrow>
                   lock g1 = Some i))
       \<and> (\<forall>i. i < length (handlers g1) \<and> h_pc (handlers g1 ! i) = AtLock \<and> lock g1 \<noteq> None \<longrightarrow>
              step dumps fails g1 i = None)
       \<and> (\<forall>i. i < length (handlers g1) \<and> deciding (h_pc (handlers g1 ! i)) \<longrightarrow>
              (\<exists>g2. step dumps fails g1 i = Some g2 \<and> lock g2 = lock g1))"
proof -
  have inv1: "lock_inv g1" using inv rn by (rule run_lock_inv)
  have one: "\<forall>i j. i < length (handlers g1) \<and> j < length (handlers g1)
              \<and> sending (h_pc (handlers g1 ! i)) \<and> sending (h_pc (handlers g1 ! j)) \<longrightarrow> i = j"
    using inv1 by (auto simp: lock_inv_iff)
  have st: "(clients (relay g2) \<noteq> clients (relay g1) \<longrightarrow> lock g1 = None)
              \<and> (writes (map snd (trace g2)) \<noteq> writes (map snd (trace g1)) \<longrightarrow> lock g1 = Some i)"
    if s: "step dumps fails g1 i = Some g2" for i g2
  proof -
    have ir: "i < length (handlers g1)" using s by (rule step_in_range)
    from step_trace [OF s] obtain es where
      tr: "trace g2 = trace g1 @ map (Pair i) es"
      and wr: "writes es \<noteq> [] \<longrightarrow> sending (h_pc (handlers g1 ! i))"
      by blast
    have "writes (map snd (trace g2)) = writes (map snd (trace g1)) @ writes es"
      unfolding tr by (simp add: writes_append comp_def)
    then have "writes (map snd (trace g2)) \<noteq> writes (map snd (trace g1)) \<longrightarrow> lock g1 = Some i"
      using wr inv1 ir by (auto simp: lock_inv_iff)
    then show ?thesis using step_clients [OF s] by blast
  qed
  have wait: "\<forall>i. i < length (handlers g1) \<and> h_pc (handlers g1 ! i) = AtLock \<and> lock g1 \<noteq> None \<longrightarrow>
              step dumps fails g1 i = None"
    using step_waits by blast
  have dec: "\<forall>i. i < length (handlers g1) \<and> deciding (h_pc (handlers g1 ! i)) \<longrightarrow>
              (\<exists>g2. step dumps fails g1 i = Some g2 \<and> lock g2 = lock g1)"
    using step_deciding by blast
  from inv1 one st wait dec show ?thesis by blast
qed

lemmas ex_hub_eval =
  ex_hub_def ex_relay_def ex_pause_def step_def goto_def emit_def compare_def
  msg_get_def dict_get_def debug_log_def Let_def send_one_def ex_encode_def ex_no_failure_def
  newline_def

theorem lock_guards_sending_only_witness:
  "lock_inv (ex_hub (ex_pause True ''A'') (ex_pause True ''B''))
   \<and> run ex_encode ex_no_failure (ex_hub (ex_pause True ''A'') (ex_pause True ''B''))
         [0, 1, 0, 0] = Some ex_mid
   \<and> lock_inv ex_mid \<and> lock ex_mid = Some 0
   \<and> deciding (h_pc (handlers ex_mid ! 1))
   \<and> (\<exists>g2. step ex_encode ex_no_failure ex_mid 1 = Some g2 \<and> lock g2 = lock ex_mid)
   \<and> step ex_encode ex_no_failure ex_mid 1 = Some ex_mid_next
   \<and> h_pc (handlers ex_mid_next ! 1) = AtLock
   \<and> step ex_encode ex_no_failure ex_mid_next 1 = None"
proof -
  have i0: "lock_inv (ex_hub (ex_pause True ''A'') (ex_pause True ''B''))"
    by (simp add: lock_inv_def ex_hub_def upt_rec)
  have r: "run ex_encode ex_no_failure (ex_hub (ex_pause True ''A'') (ex_pause True ''B''))
         [0, 1, 0, 0] = Some ex_mid"
    by (simp add: ex_mid_def ex_hub_eval)
  note t = lock_guards_sending_only [OF i0 r]
  from t have i1: "lock_inv ex_mid" by blast
  have l: "lock ex_mid = Some 0" by (simp add: ex_mid_def)
  have d: "deciding (h_pc (handlers ex_mid ! 1))" by (simp add: ex_mid_def)
  have len: "1 < length (handlers ex_mid)" by (simp add: ex_mid_def)
  from t d len have e: "\<exists>g2. step ex_encode ex_no_failure ex_mid 1 = Some g2 \<and> lock g2 = lock ex_mid"
    by blast
  have n: "step ex_encode ex_no_failure ex_mid 1 = Some ex_mid_next"
    by (simp add: ex_mid_def ex_mid_next_def ex_hub_eval)
  have a: "h_pc (handlers ex_mid_next ! 1) = AtLock" by (simp add: ex_mid_next_def)
  have w: "step ex_encode ex_no_failure ex_mid_next 1 = None"
    by (simp add: ex_mid_next_def ex_hub_eval)
  from i0 r i1 l d e n a w show ?thesis by blast
qed

text \<open>
  The compare, the update and the broadcast of one event are not atomic with respect to
  another event. Two peers send the same pause event; both threads compare before either
  updates, both update, and both broadcast, though handled one after the other, in
  either order, the second event is suppressed. The second thread updates the
  canonical state while the first holds the lock. And with a pause event and a resume
  event, the relay can end with the canonical state of the resume while the pause is
  the last thing broadcast, which no handling of the two one after the other gives.
\<close>

theorem handlers_interleave_counterexample:
  "run ex_encode ex_no_failure (ex_hub (ex_pause True ''A'') (ex_pause True ''B'')) ex_sched
     = Some \<lparr>relay = ex_relay\<lparr>current_pause := JBool True\<rparr>, lock = None,
             handlers = [\<lparr>h_conn = 1, h_msg = ex_pause True ''A'', h_pc = AtDeregister None\<rparr>,
                         \<lparr>h_conn = 2, h_msg = ex_pause True ''B'', h_pc = AtDeregister None\<rparr>],
             trace = [(0, Logged (LogUpdatePause (JBool True))),
                      (1, Logged (LogUpdatePause (JBool True))),
                      (0, Wrote 2 (''A:pause'' @ newline)), (0, Wrote 3 (''A:pause'' @ newline)),
                      (1, Wrote 1 (''B:pause'' @ newline)), (1, Wrote 3 (''B:pause'' @ newline))]\<rparr>
   \<and> handle_message ex_encode ex_no_failure ex_relay (ex_pause True ''A'') 1
     = Inr (ex_relay\<lparr>current_pause := JBool True\<rparr>,
            [Logged (LogUpdatePause (JBool True)),
             Wrote 2 (''A:pause'' @ newline), Wrote 3 (''A:pause'' @ newline)])
   \<and> handle_message ex_encode ex_no_failure (ex_relay\<lparr>current_pause := JBool True\<rparr>)
         (ex_pause True ''B'') 2
     = Inr (ex_relay\<lparr>current_pause := JBool True\<rparr>, [])
   \<and> handle_message ex_encode ex_no_failure ex_relay (ex_pause True ''B'') 2
     = Inr (ex_relay\<lparr>current_pause := JBool True\<rparr>,
            [Logged (LogUpdatePause (JBool True)),
             Wrote 1 (''B:pause'' @ newline), Wrote 3 (''B:pause'' @ newline)])
   \<and> handle_message ex_encode ex_no_failure (ex_relay\<lparr>current_pause := JBool True\<rparr>)
         (ex_pause True ''A'') 1
     = Inr (ex_relay\<lparr>current_pause := JBool True\<rparr>, [])
   \<and> run ex_encode ex_no_failure (ex_hub (ex_pause True ''A'') (ex_pause True ''B''))
         [0, 1, 0, 0] = Some ex_mid
   \<and> lock ex_mid = Some 0
   \<and> step ex_encode ex_no_failure ex_mid 1 = Some ex_mid_next
   \<and> trace ex_mid_next = trace ex_mid @ [(1, Logged (LogUpdatePause (JBool True)))]
   \<and> run ex_encode ex_no_failure (ex_hub (ex_pause True ''A'') (ex_pause False ''B''))
         [0, 0, 1, 1, 1, 1, 1, 1, 1, 0, 0, 0, 0, 0]
     = Some \<lparr>relay = ex_relay\<lparr>current_pause := JBool False\<rparr>, lock = None,
             handlers = [\<lparr>h_conn = 1, h_msg = ex_pause True ''A'', h_pc = AtDeregister None\<rparr>,
                         \<lparr>h_conn = 2, h_msg = ex_pause False ''B'', h_pc = AtDeregister None\<rparr>],
             trace = [(0, Logged (LogUpdatePause (JBool True))),
                      (1, Logged (LogUpdatePause (JBool False))),
                      (1, Wrote 1 (''B:resume'' @ newline)), (1, Wrote 3 (''B:resume'' @ newline)),
                      (0, Wrote 2 (''A:pause'' @ newline)), (0, Wrote 3 (''A:pause'' @ newline))]\<rparr>
   \<and> handle_message ex_encode ex_no_failure (ex_relay\<lparr>current_pause := JBool True\<rparr>)
         (ex_pause False ''B'') 2
     = Inr (ex_relay\<lparr>current_pause := JBool False\<rparr>,
            [Logged (LogUpdatePause (JBool False)),
             Wrote 1 (''B:resume'' @ newline), Wrote 3 (''B:resume'' @ newline)])
   \<and> handle_message ex_encode ex_no_failure ex_relay (ex_pause False ''B'') 2
     = Inr (ex_relay, [])"
proof -
  have 1: "run ex_encode ex_no_failure (ex_hub (ex_pause True ''A'') (ex_pause True ''B'')) ex_sched
     = Some \<lparr>relay = ex_relay\<lparr>current_pause := JBool True\<rparr>, lock = None,
             handlers = [\<lparr>h_conn = 1, h_msg = ex_pause True ''A'', h_pc = AtDeregister None\<rparr>,
                         \<lparr>h_conn = 2, h_msg = ex_pause True ''B'', h_pc = AtDeregister None\<rparr>],
             trace = [(0, Logged (LogUpdatePause (JBool True))),
                      (1, Logged (LogUpdatePause (JBool True))),
                      (0, Wrote 2 (''A:pause'' @ newline)), (0, Wrote 3 (''A:pause'' @ newline)),
                      (1, Wrote 1 (''B:pause'' @ newline)), (1, Wrote 3 (''B:pause'' @ newline))]\<rparr>"
    by (simp add: ex_sched_def ex_hub_eval)
  have 2: "handle_message ex_encode ex_no_failure ex_relay (ex_pause True ''A'') 1
     = Inr (ex_relay\<lparr>current_pause := JBool True\<rparr>,
            [Logged (LogUpdatePause (JBool True)),
             Wrote 2 (''A:pause'' @ newline), Wrote 3 (''A:pause'' @ newline)])"
    by (simp add: handle_message_def broadcast_to_others_def ex_hub_eval)
  have 3: "handle_message ex_encode ex_no_failure (ex_relay\<lparr>current_pause := JBool True\<rparr>)
         (ex_pause True ''B'') 2
     = Inr (ex_relay\<lparr>current_pause := JBool True\<rparr>, [])"
    by (simp add: handle_message_def broadcast_to_others_def ex_hub_eval)
  have 4: "handle_message ex_encode ex_no_failure ex_relay (ex_pause True ''B'') 2
     = Inr (ex_relay\<lparr>current_pause := JBool True\<rparr>,
            [Logged (LogUpdatePause (JBool True)),
             Wrote 1 (''B:pause'' @ newline), Wrote 3 (''B:pause'' @ newline)])"
    by (simp add: handle_message_def broadcast_to_others_def ex_hub_eval)
  have 5: "handle_message ex_encode ex_no_failure (ex_relay\<lparr>current_pause := JBool True\<rparr>)
         (ex_pause True ''A'') 1
     = Inr (ex_relay\<lparr>current_pause := JBool True\<rparr>, [])"
    by (simp add: handle_message_def broadcast_to_others_def ex_hub_eval)
  have 6: "run ex_encode ex_no_failure (ex_hub (ex_pause True ''A'') (ex_pause True ''B''))
         [0, 1, 0, 0] = Some ex_mid"
    by (simp add: ex_mid_def ex_hub_eval)
  have 7: "lock ex_mid = Some 0" by (simp add: ex_mid_def)
  have 8: "step ex_encode ex_no_failure ex_mid 1 = Some ex_mid_next"
    by (simp add: ex_mid_def ex_mid_next_def ex_hub_eval)
  have 9: "trace ex_mid_next = trace ex_mid @ [(1, Logged (LogUpdatePause (JBool True)))]"
    by (simp add: ex_mid_def ex_mid_next_def)
  have 10: "run ex_encode ex_no_failure (ex_hub (ex_pause True ''A'') (ex_pause False ''B''))
         [0, 0, 1, 1, 1, 1, 1, 1, 1, 0, 0, 0, 0, 0]
     = Some \<lparr>relay = ex_relay\<lparr>current_pause := JBool False\<rparr>, lock = None,
             handlers = [\<lparr>h_conn = 1, h_msg = ex_pause True ''A'', h_pc = AtDeregister None\<rparr>,
                         \<lparr>h_conn = 2, h_msg = ex_pause False ''B'', h_pc = AtDeregister None\<rparr>],
             trace = [(0, Logged (LogUpdatePause (JBool True))),
                      (1, Logged (LogUpdatePause (JBool False))),
                      (1, Wrote 1 (''B:resume'' @ newline)), (1, Wrote 3 (''B:resume'' @ newline)),
                      (0, Wrote 2 (''A:pause'' @ newline)), (0, Wrote 3 (''A:pause'' @ newline))]\<rparr>"
    by (simp add: ex_hub_eval)
  have 11: "handle_message ex_encode ex_no_failure (ex_relay\<lparr>current_pause := JBool True\<rparr>)
         (ex_pause False ''B'') 2
     = Inr (ex_relay\<lparr>current_pause := JBool False\<rparr>,
            [Logged (LogUpdatePause (JBool False)),
             Wrote 1 (''B:resume'' @ newline), Wrote 3 (''B:resume'' @ newline)])"
    by (simp add: handle_message_def broadcast_to_others_def ex_hub_eval)
  have 12: "handle_message ex_encode ex_no_failure ex_relay (ex_pause False ''B'') 2
     = Inr (ex_relay, [])"
    by (simp add: handle_message_def broadcast_to_others_def ex_hub_eval)
  from 1 2 3 4 5 6 7 8 9 10 11 12 show ?thesis by blast
qed

end
